theory Spec2Isabelle
  imports Main "HOL-Library.Sublist" "HOL-Library.Log_Nat"
begin

section \<open>Python values\<close>

text \<open>
  A Python \<open>str\<close> is a sequence of Unicode code points, and \<open>len\<close> counts code points:
  a string is a list of code points here. The headings of the documents are Cyrillic, so
  the byte strings of HOL would count and compare the wrong things.
\<close>

type_synonym pystr = "nat list"

text \<open>An ASCII literal of the source, as code points.\<close>

definition asc :: "string \<Rightarrow> pystr" where
  "asc s = map of_char s"

text \<open>
  \<open>str.isspace\<close> of one character, which is also what \<open>\s\<close> matches in a \<open>str\<close> pattern:
  U+0009..U+000D, U+001C..U+0020, U+0085, U+00A0, U+1680, U+2000..U+200A, U+2028,
  U+2029, U+202F, U+205F, U+3000.
\<close>

definition is_space :: "nat \<Rightarrow> bool" where
  "is_space c \<longleftrightarrow>
     (9 \<le> c \<and> c \<le> 13) \<or> (28 \<le> c \<and> c \<le> 32) \<or> c = 133 \<or> c = 160 \<or> c = 5760 \<or>
     (8192 \<le> c \<and> c \<le> 8202) \<or> c = 8232 \<or> c = 8233 \<or> c = 8239 \<or> c = 8287 \<or> c = 12288"

text \<open>
  What \<open>\d\<close> matches in a \<open>str\<close> pattern: the decimal digits of Unicode (category Nd,
  Unicode 14.0 as shipped with CPython 3.11), as inclusive ranges of code points.
\<close>

definition decimal_ranges :: "(nat \<times> nat) list" where
  "decimal_ranges =
    [(48, 57), (1632, 1641), (1776, 1785), (1984, 1993), (2406, 2415), (2534, 2543),
     (2662, 2671), (2790, 2799), (2918, 2927), (3046, 3055), (3174, 3183), (3302, 3311),
     (3430, 3439), (3558, 3567), (3664, 3673), (3792, 3801), (3872, 3881), (4160, 4169),
     (4240, 4249), (6112, 6121), (6160, 6169), (6470, 6479), (6608, 6617), (6784, 6793),
     (6800, 6809), (6992, 7001), (7088, 7097), (7232, 7241), (7248, 7257), (42528, 42537),
     (43216, 43225), (43264, 43273), (43472, 43481), (43504, 43513), (43600, 43609),
     (44016, 44025), (65296, 65305), (66720, 66729), (68912, 68921), (69734, 69743),
     (69872, 69881), (69942, 69951), (70096, 70105), (70384, 70393), (70736, 70745),
     (70864, 70873), (71248, 71257), (71360, 71369), (71472, 71481), (71904, 71913),
     (72016, 72025), (72784, 72793), (73040, 73049), (73120, 73129), (92768, 92777),
     (92864, 92873), (93008, 93017), (120782, 120831), (123200, 123209), (123632, 123641),
     (125264, 125273), (130032, 130041)]"

definition is_decimal :: "nat \<Rightarrow> bool" where
  "is_decimal c = list_ex (\<lambda>(lo, hi). lo \<le> c \<and> c \<le> hi) decimal_ranges"

text \<open>\<open>s.strip()\<close>: leading and trailing whitespace removed.\<close>

definition strip :: "pystr \<Rightarrow> pystr" where
  "strip s = rev (dropWhile is_space (rev (dropWhile is_space s)))"

text \<open>\<open>sep.join(xs)\<close>.\<close>

fun str_join :: "pystr \<Rightarrow> pystr list \<Rightarrow> pystr" where
  "str_join sep [] = []"
| "str_join sep [x] = x"
| "str_join sep (x # y # ys) = x @ sep @ str_join sep (y # ys)"

text \<open>
  The truth value of an optional string in a condition (\<open>if title:\<close>): \<open>None\<close> and the
  empty string are false.
\<close>

fun truthy :: "pystr option \<Rightarrow> bool" where
  "truthy None = False"
| "truthy (Some s) = (s \<noteq> [])"

text \<open>
  An exception of the class \<open>Exception\<close>, with the text \<open>str(e)\<close> gives for it. The code
  tells \<open>OSError\<close> (with its subclasses) from the rest, and raises one \<open>ValueError\<close> itself.
\<close>

datatype pyexc = OSError pystr | ValueError pystr | OtherException pystr

fun exc_str :: "pyexc \<Rightarrow> pystr" where
  "exc_str (OSError m) = m"
| "exc_str (ValueError m) = m"
| "exc_str (OtherException m) = m"

section \<open>The heading patterns of \<open>DocumentProcessor\<close>\<close>

text \<open>
  A keyword of a pattern compiled with \<open>re.IGNORECASE\<close>: per position, the code points the
  position accepts (both cases of the letter, and for some Cyrillic letters the variant
  forms U+1C80..U+1C85 that the \<open>re\<close> module counts as the same letter).
\<close>

type_synonym keyword = "nat list list"

text \<open>The keywords: \<open>Statya\<close> (article), \<open>Razdel\<close> (section), \<open>Glava\<close> (chapter), and the
  paragraph sign U+00A7.\<close>

definition kw_article :: keyword where
  "kw_article = [[1057, 1089, 7299], [1058, 1090, 7300, 7301], [1040, 1072],
                 [1058, 1090, 7300, 7301], [1068, 1100], [1071, 1103]]"

definition kw_section :: keyword where
  "kw_section = [[1056, 1088], [1040, 1072], [1047, 1079], [1044, 1076, 7297],
                 [1045, 1077], [1051, 1083]]"

definition kw_chapter :: keyword where
  "kw_chapter = [[1043, 1075], [1051, 1083], [1040, 1072], [1042, 1074, 7296], [1040, 1072]]"

definition kw_paragraph :: keyword where
  "kw_paragraph = [[167]]"

text \<open>Matching a keyword at the start of a string: the rest of the string, or no match.\<close>

fun match_lit :: "keyword \<Rightarrow> pystr \<Rightarrow> pystr option" where
  "match_lit [] s = Some s"
| "match_lit (vs # ps) [] = None"
| "match_lit (vs # ps) (c # cs) = (if c \<in> set vs then match_lit ps cs else None)"

text \<open>\<open>\d+\<close>: the rest after the longest run of digits, no match when there is no digit.\<close>

definition digits1 :: "pystr \<Rightarrow> pystr option" where
  "digits1 s = (case s of [] \<Rightarrow> None
                | d # r \<Rightarrow> if is_decimal d then Some (dropWhile is_decimal r) else None)"

text \<open>\<open>(?:\.\d+)*\<close>, greedy: as many groups of a dot and digits as there are.\<close>

function skip_dotted :: "pystr \<Rightarrow> pystr" where
  "skip_dotted [] = []"
| "skip_dotted [c] = [c]"
| "skip_dotted (c # d # r) =
     (if c = 46 \<and> is_decimal d then skip_dotted (dropWhile is_decimal r) else c # d # r)"
  by pat_completeness auto
termination
proof (relation "measure length")
  show "wf (measure length)" by simp
next
  fix c d :: nat and r :: pystr
  have "length (dropWhile is_decimal r) \<le> length r"
    by (rule length_dropWhile_le)
  then show "(dropWhile is_decimal r, c # d # r) \<in> measure length"
    by simp
qed

text \<open>\<open>\.?\<close>, greedy.\<close>

fun opt_dot :: "pystr \<Rightarrow> pystr" where
  "opt_dot [] = []"
| "opt_dot (c # r) = (if c = 46 then r else c # r)"

text \<open>\<open>\d+(?:\.\d+)*\<close>: a number with dotted parts.\<close>

definition dotted_number :: "pystr \<Rightarrow> pystr option" where
  "dotted_number s = map_option skip_dotted (digits1 s)"

text \<open>
  The rest of the string after \<open>^\s*Statya\s*\d+(?:\.\d+)*\.?\s*\<close>. Every greedy choice is
  the only one that can match (whitespace, digits and the dot are disjoint), so there is
  no backtracking to model.
\<close>

definition article_prefix :: "pystr \<Rightarrow> pystr option" where
  "article_prefix s =
     (case match_lit kw_article (dropWhile is_space s) of
        None \<Rightarrow> None
      | Some r \<Rightarrow>
          (case dotted_number (dropWhile is_space r) of
             None \<Rightarrow> None
           | Some r' \<Rightarrow> Some (dropWhile is_space (opt_dot r'))))"

text \<open>The rest after \<open>^\s*KEYWORD\s+\d+\.?\s*\<close>, for the three structural headings.\<close>

definition heading_prefix :: "keyword \<Rightarrow> pystr \<Rightarrow> pystr option" where
  "heading_prefix kw s =
     (case match_lit kw (dropWhile is_space s) of
        None \<Rightarrow> None
      | Some r \<Rightarrow>
          (case r of
             [] \<Rightarrow> None
           | c # _ \<Rightarrow>
               if is_space c
               then (case digits1 (dropWhile is_space r) of
                       None \<Rightarrow> None
                     | Some r' \<Rightarrow> Some (dropWhile is_space (opt_dot r')))
               else None))"

text \<open>
  \<open>group(0)\<close> of a match that starts at the start of \<open>s\<close> and whose last part is \<open>(.*)\<close>:
  the dot matches every character but the newline, so the match runs from the start to
  the first newline after the prefix (or to the end).
\<close>

definition group0 :: "pystr \<Rightarrow> pystr \<Rightarrow> pystr" where
  "group0 s rest = take (length s - length (dropWhile (\<lambda>c. c \<noteq> 10) rest)) s"

text \<open>\<open>pattern.match(s)\<close> for the four compiled patterns: \<open>group(0)\<close>, or \<open>None\<close>.\<close>

definition article_start_pattern :: "pystr \<Rightarrow> pystr option" where
  "article_start_pattern s = map_option (group0 s) (article_prefix s)"

definition section_start_pattern :: "pystr \<Rightarrow> pystr option" where
  "section_start_pattern s = map_option (group0 s) (heading_prefix kw_section s)"

definition chapter_start_pattern :: "pystr \<Rightarrow> pystr option" where
  "chapter_start_pattern s = map_option (group0 s) (heading_prefix kw_chapter s)"

definition paragraph_start_pattern :: "pystr \<Rightarrow> pystr option" where
  "paragraph_start_pattern s = map_option (group0 s) (heading_prefix kw_paragraph s)"

section \<open>Segmentation into articles\<close>

text \<open>
  The metadata dictionary of a LangChain \<open>Document\<close>: a key that is absent is \<open>None\<close>.
\<close>

record metadata =
  article_title :: "pystr option"
  section_title :: "pystr option"
  chapter_title :: "pystr option"
  paragraph_title :: "pystr option"
  md_keywords :: "pystr list option"
  topic :: "pystr option"

record document =
  page_content :: pystr
  metadata :: metadata

text \<open>
  What the linguistic model gives for a text: the texts of its sentences and its tokens.
  The model is outside the repository: it is a parameter \<open>nlp\<close>, which may raise.
\<close>

record token =
  tok_text :: pystr
  tok_lemma :: pystr
  is_stop :: bool
  is_punct :: bool
  like_num :: bool

record spacy_doc =
  sents :: "pystr list"
  tokens :: "token list"

text \<open>The variables of \<open>segment_into_articles\<close> that the loop and the closure share.\<close>

record seg_state =
  langchain_articles :: "document list"
  current_article_full_title :: "pystr option"
  current_article_content :: "pystr list"
  current_section_title :: "pystr option"
  current_chapter_title :: "pystr option"
  current_paragraph_title :: "pystr option"

definition keep_truthy :: "pystr option \<Rightarrow> pystr option" where
  "keep_truthy t = (if truthy t then t else None)"

definition add_article_to_list :: "seg_state \<Rightarrow> seg_state" where
  "add_article_to_list st =
     (let st' =
        (if truthy (current_article_full_title st) \<and> current_article_content st \<noteq> []
         then st\<lparr>langchain_articles := langchain_articles st @
                [\<lparr>page_content = strip (str_join [10] (current_article_content st)),
                  metadata = \<lparr>article_title = current_article_full_title st,
                              section_title = keep_truthy (current_section_title st),
                              chapter_title = keep_truthy (current_chapter_title st),
                              paragraph_title = keep_truthy (current_paragraph_title st),
                              md_keywords = None,
                              topic = None\<rparr>\<rparr>]\<rparr>
         else st)
      in st'\<lparr>current_article_full_title := None, current_article_content := []\<rparr>)"

text \<open>The body of the loop over the sentences, for one sentence.\<close>

definition scan_sentence :: "seg_state \<Rightarrow> pystr \<Rightarrow> seg_state" where
  "scan_sentence st sent =
     (let sent_text = strip sent in
      if sent_text = [] then st
      else case section_start_pattern sent_text of
        Some g \<Rightarrow> (add_article_to_list st)
                    \<lparr>current_section_title := Some (strip g),
                     current_chapter_title := None,
                     current_paragraph_title := None\<rparr>
      | None \<Rightarrow>
       (case chapter_start_pattern sent_text of
          Some g \<Rightarrow> (add_article_to_list st)
                      \<lparr>current_chapter_title := Some (strip g),
                       current_paragraph_title := None\<rparr>
        | None \<Rightarrow>
         (case paragraph_start_pattern sent_text of
            Some g \<Rightarrow> (add_article_to_list st)\<lparr>current_paragraph_title := Some (strip g)\<rparr>
          | None \<Rightarrow>
           (case article_start_pattern sent_text of
              Some g \<Rightarrow> (add_article_to_list st)
                          \<lparr>current_article_full_title := Some (strip g),
                           current_article_content := [sent_text]\<rparr>
            | None \<Rightarrow>
               if truthy (current_article_full_title st)
               then st\<lparr>current_article_content := current_article_content st @ [sent_text]\<rparr>
               else st))))"

definition seg_init :: seg_state where
  "seg_init = \<lparr>langchain_articles = [], current_article_full_title = None,
               current_article_content = [], current_section_title = None,
               current_chapter_title = None, current_paragraph_title = None\<rparr>"

text \<open>The loop and the last flush, on the sentences of the text.\<close>

definition segment_sents :: "pystr list \<Rightarrow> document list" where
  "segment_sents ss = langchain_articles (add_article_to_list (foldl scan_sentence seg_init ss))"

definition segment_into_articles ::
  "(pystr \<Rightarrow> pyexc + spacy_doc) \<Rightarrow> pystr \<Rightarrow> pyexc + document list" where
  "segment_into_articles nlp doc_text =
     (case nlp doc_text of
        Inl e \<Rightarrow> Inl e
      | Inr spacy_doc \<Rightarrow> Inr (segment_sents (sents spacy_doc)))"

text \<open>
  The invariant of the scan: every article emitted so far has a title and content, and
  every buffered line has a character that is not whitespace.
\<close>

definition seg_ok :: "seg_state \<Rightarrow> bool" where
  "seg_ok st \<longleftrightarrow>
     (\<forall>a\<in>set (langchain_articles st). truthy (article_title (metadata a)) \<and> page_content a \<noteq> []) \<and>
     (\<forall>l\<in>set (current_article_content st). \<exists>c\<in>set l. \<not> is_space c)"

text \<open>From \<open>st\<close> to \<open>st'\<close> articles were only appended, each with the section title \<open>t\<close>.\<close>

definition emits_with :: "pystr option \<Rightarrow> seg_state \<Rightarrow> seg_state \<Rightarrow> bool" where
  "emits_with t st st' \<longleftrightarrow>
     (\<exists>new. langchain_articles st' = langchain_articles st @ new \<and>
            (\<forall>a\<in>set new. section_title (metadata a) = t))"

subsection \<open>The sentences of the scenario\<close>

text \<open>\<open>Razdel 1. Obshchie polozheniya.\<close>\<close>

definition sent_section1 :: pystr where
  "sent_section1 = [1056, 1072, 1079, 1076, 1077, 1083, 32, 49, 46, 32, 1054, 1073, 1097, 1080,
     1077, 32, 1087, 1086, 1083, 1086, 1078, 1077, 1085, 1080, 1103, 46]"

text \<open>\<open>Statya 1. Predmet regulirovaniya.\<close>\<close>

definition sent_article1 :: pystr where
  "sent_article1 = [1057, 1090, 1072, 1090, 1100, 1103, 32, 49, 46, 32, 1055, 1088, 1077, 1076,
     1084, 1077, 1090, 32, 1088, 1077, 1075, 1091, 1083, 1080, 1088, 1086, 1074, 1072, 1085,
     1080, 1103, 46]"

text \<open>\<open>Zakon reguliruet otnosheniya.\<close>\<close>

definition sent_body1 :: pystr where
  "sent_body1 = [1047, 1072, 1082, 1086, 1085, 32, 1088, 1077, 1075, 1091, 1083, 1080, 1088,
     1091, 1077, 1090, 32, 1086, 1090, 1085, 1086, 1096, 1077, 1085, 1080, 1103, 46]"

text \<open>\<open>Statya 2. Osnovnye ponyatiya.\<close>\<close>

definition sent_article2 :: pystr where
  "sent_article2 = [1057, 1090, 1072, 1090, 1100, 1103, 32, 50, 46, 32, 1054, 1089, 1085, 1086,
     1074, 1085, 1099, 1077, 32, 1087, 1086, 1085, 1103, 1090, 1080, 1103, 46]"

text \<open>\<open>Ispolzuyutsya sleduyushchie ponyatiya.\<close>\<close>

definition sent_body2 :: pystr where
  "sent_body2 = [1048, 1089, 1087, 1086, 1083, 1100, 1079, 1091, 1102, 1090, 1089, 1103, 32,
     1089, 1083, 1077, 1076, 1091, 1102, 1097, 1080, 1077, 32, 1087, 1086, 1085, 1103, 1090,
     1080, 1103, 46]"

text \<open>\<open>Glava 1. Prava\<close>, a chapter heading.\<close>

definition sent_chapter1 :: pystr where
  "sent_chapter1 = [1043, 1083, 1072, 1074, 1072, 32, 49, 46, 32, 1055, 1088, 1072, 1074, 1072]"

text \<open>The article a scan of the sentences \<open>title, body\<close> under the section \<open>sec\<close> emits.\<close>

definition article_of :: "pystr option \<Rightarrow> pystr \<Rightarrow> pystr \<Rightarrow> document" where
  "article_of sec title body =
     \<lparr>page_content = title @ 10 # body,
      metadata = \<lparr>article_title = Some title, section_title = sec, chapter_title = None,
                  paragraph_title = None, md_keywords = None, topic = None\<rparr>\<rparr>"

section \<open>Keywords and topic\<close>

text \<open>
  A \<open>collections.Counter\<close>: a dictionary, which keeps its keys in the order of their first
  insertion. \<open>candidates[lemma] += 1\<close> adds a new key at the end with count 1, or adds one
  to the count of a key where it stands.
\<close>

type_synonym counter = "(pystr \<times> nat) list"

fun counter_incr :: "counter \<Rightarrow> pystr \<Rightarrow> counter" where
  "counter_incr [] k = [(k, 1)]"
| "counter_incr ((k', n) # c) k =
     (if k' = k then (k', n + 1) # c else (k', n) # counter_incr c k)"

text \<open>
  \<open>Counter.most_common()\<close> is \<open>sorted(items, key=count, reverse=True)\<close>: by falling count,
  and stable, so that keys of equal count stay in the order of insertion.
\<close>

definition most_common :: "counter \<Rightarrow> counter" where
  "most_common c = sort_key (\<lambda>(k, n). - int n) c"

text \<open>\<open>xs[:n]\<close> for an integer \<open>n\<close>: a negative \<open>n\<close> counts from the end.\<close>

definition slice_to :: "'a list \<Rightarrow> int \<Rightarrow> 'a list" where
  "slice_to xs n = (if 0 \<le> n then take (nat n) xs else take (nat (int (length xs) + n)) xs)"

text \<open>The filter on the tokens of the title and of the text.\<close>

definition is_candidate :: "token \<Rightarrow> bool" where
  "is_candidate t \<longleftrightarrow> \<not> is_stop t \<and> \<not> is_punct t \<and> \<not> like_num t"

definition title_tokens :: "(pystr \<Rightarrow> pystr) \<Rightarrow> token list \<Rightarrow> pystr set" where
  "title_tokens lower toks = set (map (\<lambda>t. lower (tok_lemma t)) (filter is_candidate toks))"

text \<open>The loop over the tokens of the text, for one token.\<close>

definition count_token :: "(pystr \<Rightarrow> pystr) \<Rightarrow> pystr set \<Rightarrow> counter \<Rightarrow> token \<Rightarrow> counter" where
  "count_token lower title_toks candidates t =
     (if is_candidate t \<and> strip (tok_text t) \<noteq> []
      then (let lemma = lower (tok_lemma t)
            in if lemma \<notin> title_toks then counter_incr candidates lemma else candidates)
      else candidates)"

text \<open>\<open>Obshchee polozhenie\<close>, the topic of an article with no keyword.\<close>

definition general_topic :: pystr where
  "general_topic = [1054, 1073, 1097, 1077, 1077, 32, 1087, 1086, 1083, 1086, 1078, 1077, 1085,
     1080, 1077]"

text \<open>
  \<open>extract_keywords_and_topic\<close>. The model \<open>nlp\<close> and \<open>str.lower\<close> (a table of Unicode) are
  parameters; \<open>nlp\<close> runs on the text first, then on the title.
\<close>

definition extract_keywords_and_topic ::
  "(pystr \<Rightarrow> pyexc + spacy_doc) \<Rightarrow> (pystr \<Rightarrow> pystr) \<Rightarrow> pystr \<Rightarrow> pystr \<Rightarrow> int
    \<Rightarrow> pyexc + (pystr list \<times> pystr)" where
  "extract_keywords_and_topic nlp lower txt title num_keywords =
     (case nlp txt of
        Inl e \<Rightarrow> Inl e
      | Inr doc \<Rightarrow>
         (case nlp title of
            Inl e \<Rightarrow> Inl e
          | Inr title_doc \<Rightarrow>
             (let title_toks = title_tokens lower (tokens title_doc);
                  candidates = foldl (count_token lower title_toks) [] (tokens doc);
                  filtered_candidates =
                    map fst (filter (\<lambda>(item, count). 2 < length item \<and> item \<notin> title_toks)
                               (most_common candidates));
                  keywords = slice_to filtered_candidates num_keywords;
                  topic = (case keywords of [] \<Rightarrow> general_topic | k # _ \<Rightarrow> k)
              in Inr (keywords, topic))))"

text \<open>\<open>d.get(key, default)\<close> on a key that may be absent.\<close>

definition dict_get :: "'a option \<Rightarrow> 'a \<Rightarrow> 'a" where
  "dict_get v d = (case v of None \<Rightarrow> d | Some x \<Rightarrow> x)"

text \<open>
  \<open>enrich_articles_with_metadata\<close>: keywords and topic for every article, in order, with
  the default of seven keywords; an exception of the model ends the loop.
\<close>

fun enrich_articles_with_metadata ::
  "(pystr \<Rightarrow> pyexc + spacy_doc) \<Rightarrow> (pystr \<Rightarrow> pystr) \<Rightarrow> document list
    \<Rightarrow> pyexc + document list" where
  "enrich_articles_with_metadata nlp lower [] = Inr []"
| "enrich_articles_with_metadata nlp lower (article_doc # articles) =
     (case extract_keywords_and_topic nlp lower (page_content article_doc)
             (dict_get (article_title (metadata article_doc)) []) 7 of
        Inl e \<Rightarrow> Inl e
      | Inr (keywords, topic') \<Rightarrow>
         (case enrich_articles_with_metadata nlp lower articles of
            Inl e \<Rightarrow> Inl e
          | Inr rest \<Rightarrow>
              Inr (article_doc\<lparr>metadata := (metadata article_doc)
                     \<lparr>md_keywords := Some keywords, topic := Some topic'\<rparr>\<rparr> # rest)))"

subsection \<open>A small model and text\<close>

text \<open>
  A title \<open>Tax 1\<close> and a text \<open>the tax rates of duties duty.\<close> with their tokens, for a
  run of \<open>extract_keywords_and_topic\<close> on concrete values; \<open>ascii_lower\<close> is \<open>str.lower\<close>
  on ASCII strings.
\<close>

definition wit_title_doc :: spacy_doc where
  "wit_title_doc = \<lparr>sents = [], tokens =
     [\<lparr>tok_text = asc ''Tax'', tok_lemma = asc ''Tax'', is_stop = False, is_punct = False,
       like_num = False\<rparr>,
      \<lparr>tok_text = asc ''1'', tok_lemma = asc ''1'', is_stop = False, is_punct = False,
       like_num = True\<rparr>]\<rparr>"

definition wit_text_doc :: spacy_doc where
  "wit_text_doc = \<lparr>sents = [], tokens =
     [\<lparr>tok_text = asc ''the'', tok_lemma = asc ''the'', is_stop = True, is_punct = False,
       like_num = False\<rparr>,
      \<lparr>tok_text = asc ''tax'', tok_lemma = asc ''tax'', is_stop = False, is_punct = False,
       like_num = False\<rparr>,
      \<lparr>tok_text = asc ''rates'', tok_lemma = asc ''rate'', is_stop = False, is_punct = False,
       like_num = False\<rparr>,
      \<lparr>tok_text = asc ''of'', tok_lemma = asc ''of'', is_stop = False, is_punct = False,
       like_num = False\<rparr>,
      \<lparr>tok_text = asc ''duties'', tok_lemma = asc ''duty'', is_stop = False, is_punct = False,
       like_num = False\<rparr>,
      \<lparr>tok_text = asc ''duty'', tok_lemma = asc ''duty'', is_stop = False, is_punct = False,
       like_num = False\<rparr>,
      \<lparr>tok_text = asc ''.'', tok_lemma = asc ''.'', is_stop = False, is_punct = True,
       like_num = False\<rparr>]\<rparr>"

definition wit_nlp :: "pystr \<Rightarrow> pyexc + spacy_doc" where
  "wit_nlp s = (if s = asc ''Tax 1'' then Inr wit_title_doc else Inr wit_text_doc)"

definition ascii_lower :: "pystr \<Rightarrow> pystr" where
  "ascii_lower s = map (\<lambda>c. if 65 \<le> c \<and> c \<le> 90 then c + 32 else c) s"

section \<open>File names and the markdown files\<close>

text \<open>The characters \<open>\ / : * ? " < > |\<close> that \<open>sanitize_string_for_filename\<close> removes.\<close>

definition unsafe_chars :: "nat list" where
  "unsafe_chars = [92, 47, 58, 42, 63, 34, 60, 62, 124]"

definition sanitize_string_for_filename :: "pystr \<Rightarrow> int \<Rightarrow> pystr" where
  "sanitize_string_for_filename txt max_length =
     (let sanitized = filter (\<lambda>c. c \<notin> set unsafe_chars) txt;
          sanitized = strip (map (\<lambda>c. if c = 32 then 95 else c) sanitized)
      in slice_to sanitized max_length)"

text \<open>
  \<open>re.search\<close> of \<open>(PREFIX\s*\d+(?:\.\d+)*)\<close>, case ignored: the match at the first
  position of the title that has one. At a position, the match is the keyword, the
  whitespace after it and the dotted number.
\<close>

definition structure_at :: "keyword \<Rightarrow> pystr \<Rightarrow> pystr option" where
  "structure_at kw s =
     (case match_lit kw s of
        None \<Rightarrow> None
      | Some r \<Rightarrow>
         (case dotted_number (dropWhile is_space r) of
            None \<Rightarrow> None
          | Some r' \<Rightarrow> Some (take (length s - length r') s)))"

fun search_structure :: "keyword \<Rightarrow> pystr \<Rightarrow> pystr option" where
  "search_structure kw [] = structure_at kw []"
| "search_structure kw (c # cs) =
     (case structure_at kw (c # cs) of
        Some g \<Rightarrow> Some g
      | None \<Rightarrow> search_structure kw cs)"

definition get_structure_filename_id :: "pystr \<Rightarrow> keyword \<Rightarrow> int \<Rightarrow> pystr" where
  "get_structure_filename_id title prefix_kw max_length =
     (case search_structure prefix_kw title of
        Some g \<Rightarrow> sanitize_string_for_filename g max_length
      | None \<Rightarrow> [])"

text \<open>\<open>str(n)\<close> for a natural number, as in the f-strings with \<open>i+1\<close>.\<close>

function str_of_nat :: "nat \<Rightarrow> pystr" where
  "str_of_nat n = (if n < 10 then [48 + n] else str_of_nat (n div 10) @ [48 + n mod 10])"
  by pat_completeness auto
termination
  by (relation "measure id") simp_all

text \<open>\<open>s.rfind(c)\<close> for one character: the last index of \<open>c\<close>, or -1.\<close>

fun rfind :: "nat \<Rightarrow> pystr \<Rightarrow> int" where
  "rfind c [] = - 1"
| "rfind c (x # xs) =
     (let r = rfind c xs in if 0 \<le> r then r + 1 else if x = c then 0 else - 1)"

text \<open>
  \<open>os.path.splitext\<close> of POSIX: the extension starts at the last dot, if that dot comes
  after the last slash and after a character of the last component that is not a dot.
\<close>

definition splitext :: "pystr \<Rightarrow> pystr \<times> pystr" where
  "splitext p =
     (let sepIndex = rfind 47 p; dotIndex = rfind 46 p
      in if sepIndex < dotIndex \<and>
            list_ex (\<lambda>c. c \<noteq> 46) (take (nat (dotIndex - sepIndex - 1)) (drop (nat (sepIndex + 1)) p))
         then (take (nat dotIndex) p, drop (nat dotIndex) p)
         else (p, []))"

text \<open>\<open>os.path.basename\<close> and \<open>os.path.join\<close> of POSIX, for two parts.\<close>

definition basename :: "pystr \<Rightarrow> pystr" where
  "basename p = drop (nat (rfind 47 p + 1)) p"

definition path_join :: "pystr \<Rightarrow> pystr \<Rightarrow> pystr" where
  "path_join a b =
     (if b \<noteq> [] \<and> hd b = 47 then b
      else if a = [] \<or> last a = 47 then a @ b
      else a @ 47 # b)"

text \<open>
  The body of the loop of \<open>save_articles_to_markdown\<close>, for the article of index \<open>i\<close>: the
  values read from the metadata, the content of the file, and the name of the file.
\<close>

definition full_article_title :: "nat \<Rightarrow> document \<Rightarrow> pystr" where
  "full_article_title i article_doc =
     dict_get (article_title (metadata article_doc)) (asc ''Untitled_Article_'' @ str_of_nat (i + 1))"

definition markdown_content :: "nat \<Rightarrow> document \<Rightarrow> pystr" where
  "markdown_content i article_doc =
     (let md = metadata article_doc;
          keywords = dict_get (md_keywords md) [];
          topic' = dict_get (topic md) [];
          section = dict_get (section_title md) [];
          chapter = dict_get (chapter_title md) [];
          paragraph = dict_get (paragraph_title md) []
      in asc ''# '' @ full_article_title i article_doc @ [10, 10] @
         (if section \<noteq> [] then asc ''## '' @ section @ [10, 10] else []) @
         (if chapter \<noteq> [] then asc ''### '' @ chapter @ [10, 10] else []) @
         (if paragraph \<noteq> [] then asc ''#### '' @ paragraph @ [10, 10] else []) @
         page_content article_doc @ [10, 10] @
         (if keywords \<noteq> []
          then asc ''## Keywords'' @ [10] @ str_join (asc '', '') keywords @ [10, 10] else []) @
         (if topic' \<noteq> [] then asc ''## Topic'' @ [10] @ topic' @ [10] else []))"

text \<open>
  \<open>filename_parts\<close> as the loop builds it; an identifier of the section, chapter or
  paragraph is added even when it is empty, the others only when they are not.
\<close>

definition filename_parts :: "pystr \<Rightarrow> nat \<Rightarrow> document \<Rightarrow> pystr list" where
  "filename_parts sanitized_doc_name_prefix i article_doc =
     (let md = metadata article_doc;
          title = full_article_title i article_doc;
          keywords = dict_get (md_keywords md) [];
          section = dict_get (section_title md) [];
          chapter = dict_get (chapter_title md) [];
          paragraph = dict_get (paragraph_title md) [];
          article_id_part = get_structure_filename_id title kw_article 50;
          descriptive_title_raw =
            strip (case article_prefix title of Some r \<Rightarrow> r | None \<Rightarrow> title);
          descriptive_title_sanitized = sanitize_string_for_filename descriptive_title_raw 50;
          keyword_segment =
            str_join [95] (map (\<lambda>k. sanitize_string_for_filename k 20) (slice_to keywords 2))
      in [sanitized_doc_name_prefix] @
         (if section \<noteq> [] then [get_structure_filename_id section kw_section 50] else []) @
         (if chapter \<noteq> [] then [get_structure_filename_id chapter kw_chapter 50] else []) @
         (if paragraph \<noteq> [] then [get_structure_filename_id paragraph kw_paragraph 50] else []) @
         (if article_id_part \<noteq> [] then [article_id_part] else []) @
         (if descriptive_title_raw \<noteq> [] \<and> descriptive_title_sanitized \<noteq> []
          then [descriptive_title_sanitized] else []) @
         (if keywords \<noteq> [] \<and> keyword_segment \<noteq> [] then [keyword_segment] else []))"

text \<open>The name as it is assembled, before the limit of 200 characters is applied.\<close>

definition assembled_filename :: "pystr \<Rightarrow> nat \<Rightarrow> document \<Rightarrow> pystr" where
  "assembled_filename sanitized_doc_name_prefix i article_doc =
     str_join [95] (filter (\<lambda>p. p \<noteq> []) (filename_parts sanitized_doc_name_prefix i article_doc))
       @ asc ''.md''"

definition limit_filename :: "pystr \<Rightarrow> pystr" where
  "limit_filename filename =
     (if 200 < length filename
      then (case splitext filename of
              (base, ext) \<Rightarrow> slice_to base (200 - int (length ext)) @ ext)
      else filename)"

definition article_filename :: "pystr \<Rightarrow> nat \<Rightarrow> document \<Rightarrow> pystr" where
  "article_filename sanitized_doc_name_prefix i article_doc =
     limit_filename (assembled_filename sanitized_doc_name_prefix i article_doc)"

definition fallback_filename :: "pystr \<Rightarrow> nat \<Rightarrow> pystr" where
  "fallback_filename sanitized_doc_name_prefix i =
     sanitized_doc_name_prefix @ asc ''_Article_'' @ str_of_nat (i + 1) @ asc ''.md''"

subsection \<open>An article with a long file name\<close>

text \<open>
  An article under a section, a chapter and a paragraph whose numbers have sixty digits,
  and a name of a document of more than forty characters.
\<close>

definition long_number :: pystr where
  "long_number = [49, 50, 51, 52, 53, 54, 55, 56, 57, 48, 49, 50, 51, 52, 53, 54, 55, 56, 57, 48,
     49, 50, 51, 52, 53, 54, 55, 56, 57, 48, 49, 50, 51, 52, 53, 54, 55, 56, 57, 48,
     49, 50, 51, 52, 53, 54, 55, 56, 57, 48, 49, 50, 51, 52, 53, 54, 55, 56, 57, 48]"

definition long_doc :: document where
  "long_doc = \<lparr>page_content = sent_article1 @ 10 # sent_body1,
     metadata = \<lparr>article_title = Some sent_article1,
       section_title = Some ([1056, 1072, 1079, 1076, 1077, 1083, 32] @ long_number),
       chapter_title = Some ([1043, 1083, 1072, 1074, 1072, 32] @ long_number),
       paragraph_title = Some ([167, 32] @ long_number),
       md_keywords = Some [asc ''regulation'', asc ''law'', asc ''subject''],
       topic = Some (asc ''regulation'')\<rparr>\<rparr>"

definition long_base :: pystr where
  "long_base = asc ''Federal law: on the subjects of regulation, 2nd edition''"

subsection \<open>Writing the files\<close>

text \<open>
  The file system is outside the program: its state is a value of a type \<open>'fs\<close>, and the
  operations on it are parameters that give their outcome (\<open>None\<close>, or the exception
  raised) and the next state. \<open>write_file fs path content\<close> stands for
  \<open>with open(path, "w") as f: f.write(content)\<close>.
\<close>

type_synonym 'fs write_op = "'fs \<Rightarrow> pystr \<Rightarrow> pystr \<Rightarrow> pyexc option \<times> 'fs"

text \<open>
  The loop of \<open>save_articles_to_markdown\<close> from the article of index \<open>i\<close> on, with the list
  \<open>created_files\<close> so far. An \<open>OSError\<close> of the first write leads to one more write, under
  the fallback name; an \<open>OSError\<close> of that one skips the article; any other exception leaves
  the function.
\<close>

fun save_loop ::
  "'fs write_op \<Rightarrow> pystr \<Rightarrow> pystr \<Rightarrow> nat \<Rightarrow> document list \<Rightarrow> pystr list \<Rightarrow> 'fs
    \<Rightarrow> (pyexc + pystr list) \<times> 'fs" where
  "save_loop wr output_dir pre i [] created_files fs = (Inr created_files, fs)"
| "save_loop wr output_dir pre i (article_doc # articles) created_files fs =
     (let file_path = path_join output_dir (article_filename pre i article_doc);
          content = markdown_content i article_doc
      in case wr fs file_path content of
           (None, fs1) \<Rightarrow>
             save_loop wr output_dir pre (i + 1) articles (created_files @ [file_path]) fs1
         | (Some (OSError e), fs1) \<Rightarrow>
             (let fallback_file_path = path_join output_dir (fallback_filename pre i)
              in case wr fs1 fallback_file_path content of
                   (None, fs2) \<Rightarrow>
                     save_loop wr output_dir pre (i + 1) articles
                       (created_files @ [fallback_file_path]) fs2
                 | (Some (OSError fallback_e), fs2) \<Rightarrow>
                     save_loop wr output_dir pre (i + 1) articles created_files fs2
                 | (Some other, fs2) \<Rightarrow> (Inl other, fs2))
         | (Some other, fs1) \<Rightarrow> (Inl other, fs1))"

text \<open>
  The services outside the repository: the linguistic model, \<open>str.lower\<close>, the two
  readers of documents, and the operations on the file system (\<open>os.makedirs\<close> and
  \<open>Path.mkdir\<close> with \<open>exist_ok=True\<close>, the write of a file, and the walk and writes of
  \<open>create_zip_archive\<close> taken as one operation).
\<close>

record 'fs services =
  nlp_model :: "pystr \<Rightarrow> pyexc + spacy_doc"
  str_lower :: "pystr \<Rightarrow> pystr"
  extract_from_docx :: "'fs \<Rightarrow> pystr \<Rightarrow> pyexc + pystr"
  extract_from_pdf :: "'fs \<Rightarrow> pystr \<Rightarrow> pyexc + pystr"
  makedirs :: "'fs \<Rightarrow> pystr \<Rightarrow> pyexc option \<times> 'fs"
  mkdir :: "'fs \<Rightarrow> pystr \<Rightarrow> pyexc option \<times> 'fs"
  write_file :: "'fs write_op"
  create_zip_archive :: "'fs \<Rightarrow> pystr \<Rightarrow> pystr \<Rightarrow> pyexc option \<times> 'fs"

definition save_articles_to_markdown ::
  "'fs services \<Rightarrow> 'fs \<Rightarrow> document list \<Rightarrow> pystr \<Rightarrow> pystr \<Rightarrow> (pyexc + pystr list) \<times> 'fs" where
  "save_articles_to_markdown sv fs articles output_dir doc_base_name =
     (case makedirs sv fs output_dir of
        (Some e, fs1) \<Rightarrow> (Inl e, fs1)
      | (None, fs1) \<Rightarrow>
          save_loop (write_file sv) output_dir (sanitize_string_for_filename doc_base_name 40)
            0 articles [] fs1)"

section \<open>Text extraction and the pipeline of one document\<close>

definition endswith :: "pystr \<Rightarrow> pystr \<Rightarrow> bool" where
  "endswith s suf \<longleftrightarrow> suffix suf s"

definition unsupported_format :: "pystr \<Rightarrow> pyexc" where
  "unsupported_format file_path = ValueError (asc ''Unsupported file format: '' @ file_path)"

definition extract_text :: "'fs services \<Rightarrow> 'fs \<Rightarrow> pystr \<Rightarrow> pyexc + pystr" where
  "extract_text sv fs file_path =
     (let file_path_lower = str_lower sv file_path
      in if endswith file_path_lower (asc ''.docx'') then extract_from_docx sv fs file_path
         else if endswith file_path_lower (asc ''.pdf'') then extract_from_pdf sv fs file_path
         else Inl (unsupported_format file_path))"

record doc_result =
  document_name :: pystr
  articles_count :: nat
  files_created :: nat
  result_output_dir :: pystr

definition process_document ::
  "'fs services \<Rightarrow> 'fs \<Rightarrow> pystr \<Rightarrow> pystr \<Rightarrow> (pyexc + doc_result) \<times> 'fs" where
  "process_document sv fs file_path output_dir =
     (let doc_base_name = fst (splitext (basename file_path))
      in case extract_text sv fs file_path of
           Inl e \<Rightarrow> (Inl e, fs)
         | Inr doc_text \<Rightarrow>
            (case segment_into_articles (nlp_model sv) doc_text of
               Inl e \<Rightarrow> (Inl e, fs)
             | Inr segmented \<Rightarrow>
                (case enrich_articles_with_metadata (nlp_model sv) (str_lower sv) segmented of
                   Inl e \<Rightarrow> (Inl e, fs)
                 | Inr articles \<Rightarrow>
                    (case save_articles_to_markdown sv fs articles output_dir doc_base_name of
                       (Inl e, fs') \<Rightarrow> (Inl e, fs')
                     | (Inr created_files, fs') \<Rightarrow>
                         (Inr \<lparr>document_name = doc_base_name,
                               articles_count = length articles,
                               files_created = length created_files,
                               result_output_dir = output_dir\<rparr>, fs')))))"

section \<open>The progress of a job\<close>

text \<open>
  The progress inside the loop over the files is \<open>int((idx / len(file_paths)) * 90)\<close>, in
  binary64 arithmetic: the quotient of the two integers is rounded to the nearest double
  (ties to even), so is its product with 90, and \<open>int\<close> truncates. A double is a rational
  number here, and \<open>fl\<close> rounds a rational that is not negative to the nearest double: to a
  multiple of the power of two 52 places below its leading bit, and of \<open>2 powi - 1074\<close> in
  the subnormal range. Overflow is out of reach: the values stay below 91.
\<close>

definition ilog2 :: "rat \<Rightarrow> int" where
  "ilog2 x = (case quotient_of x of (a, b) \<Rightarrow>
     (let d = bitlen a - bitlen b in if 2 powi d \<le> x then d else d - 1))"

definition round_half_even :: "rat \<Rightarrow> int" where
  "round_half_even x =
     (let f = \<lfloor>x\<rfloor>; r = x - of_int f
      in if r < 1 / 2 then f else if 1 / 2 < r then f + 1 else if even f then f else f + 1)"

definition quantum_exp :: "rat \<Rightarrow> int" where
  "quantum_exp x = max (- 1074) (ilog2 x - 52)"

definition fl :: "rat \<Rightarrow> rat" where
  "fl x = (if x \<le> 0 then 0
           else of_int (round_half_even (x / 2 powi quantum_exp x)) * 2 powi quantum_exp x)"

definition loop_progress :: "nat \<Rightarrow> nat \<Rightarrow> int" where
  "loop_progress idx n = \<lfloor>fl (fl (of_int (int idx) / of_int (int n)) * 90)\<rfloor>"

section \<open>Jobs\<close>

datatype job_status = Pending | Processing | Completed | Failed

text \<open>The entry of a job in the registry \<open>jobs\<close>.\<close>

record job =
  status :: job_status
  progress :: int
  message :: pystr
  created_at :: nat
  files_count :: nat
  merge_mode :: bool
  total_articles :: "nat option"
  error :: "pystr option"
  zip_path :: "pystr option"

text \<open>The entry that \<open>upload_documents\<close> creates, at the time \<open>now\<close>.\<close>

definition new_job :: "nat \<Rightarrow> nat \<Rightarrow> bool \<Rightarrow> job" where
  "new_job now n merge =
     \<lparr>status = Pending, progress = 0, message = asc ''Job queued for processing'',
      created_at = now, files_count = n, merge_mode = merge, total_articles = None,
      error = None, zip_path = None\<rparr>"

text \<open>
  Paths are the strings \<open>str(path)\<close>. \<open>a / b\<close> of \<open>pathlib\<close> for a part \<open>b\<close>; \<open>path.name\<close> is
  the last component and \<open>path.stem\<close> the name without its last suffix.
\<close>

definition path_div :: "pystr \<Rightarrow> pystr \<Rightarrow> pystr" where
  "path_div a b = (if b = [] then a else path_join a b)"

definition path_stem :: "pystr \<Rightarrow> pystr" where
  "path_stem p =
     (let name = basename p; i = rfind 46 name
      in if 0 < i \<and> i < int (length name) - 1 then take (nat i) name else name)"

definition temp_dir :: pystr where
  "temp_dir = asc ''/tmp/jobs''"

text \<open>
  The worker changes the entry of its job by assignments to single keys. To follow a job
  along its run, the model keeps the entry together with the list of the entries after
  each assignment made so far.
\<close>

type_synonym job_log = "job \<times> job list"

definition assign :: "(job \<Rightarrow> job) \<Rightarrow> job_log \<Rightarrow> job_log" where
  "assign f jl = (f (fst jl), snd jl @ [f (fst jl)])"

definition processing_message :: "nat \<Rightarrow> nat \<Rightarrow> pystr \<Rightarrow> pystr" where
  "processing_message idx n file_path =
     asc ''Processing file '' @ str_of_nat (idx + 1) @ asc ''/'' @ str_of_nat n @ asc '': '' @
     basename file_path"

text \<open>
  The loop over the files, from the file of index \<open>idx\<close> on, with \<open>n = len(file_paths)\<close>.
  The source has one loop for each mode; they differ in the directory of the output,
  which is made in the loop in the separate mode and before it in the merge mode.
\<close>

definition file_output_dir :: "bool \<Rightarrow> pystr \<Rightarrow> pystr \<Rightarrow> pystr" where
  "file_output_dir merge output_base_dir file_path =
     (if merge then path_div output_base_dir (asc ''merged_articles'')
      else path_div output_base_dir (path_stem file_path))"

fun process_files ::
  "'fs services \<Rightarrow> bool \<Rightarrow> pystr \<Rightarrow> nat \<Rightarrow> nat \<Rightarrow> pystr list \<Rightarrow> nat \<Rightarrow> job_log \<Rightarrow> 'fs
    \<Rightarrow> (pyexc + nat) \<times> job_log \<times> 'fs" where
  "process_files sv merge output_base_dir n idx [] articles_total jl fs = (Inr articles_total, jl, fs)"
| "process_files sv merge output_base_dir n idx (file_path # rest) articles_total jl fs =
     (let jl1 = assign (\<lambda>j. j\<lparr>message := processing_message idx n file_path\<rparr>) jl;
          jl2 = assign (\<lambda>j. j\<lparr>progress := loop_progress idx n\<rparr>) jl1;
          dir = file_output_dir merge output_base_dir file_path
      in case (if merge then (None, fs) else mkdir sv fs dir) of
           (Some e, fs1) \<Rightarrow> (Inl e, jl2, fs1)
         | (None, fs1) \<Rightarrow>
            (case process_document sv fs1 file_path dir of
               (Inl e, fs2) \<Rightarrow> (Inl e, jl2, fs2)
             | (Inr result, fs2) \<Rightarrow>
                 process_files sv merge output_base_dir n (idx + 1) rest
                   (articles_total + articles_count result) jl2 fs2))"

text \<open>The body of the \<open>try\<close>: the exception that leaves it, or \<open>None\<close>.\<close>

definition job_body ::
  "'fs services \<Rightarrow> pystr \<Rightarrow> pystr list \<Rightarrow> bool \<Rightarrow> job_log \<Rightarrow> 'fs
    \<Rightarrow> pyexc option \<times> job_log \<times> 'fs" where
  "job_body sv job_id file_paths merge jl fs =
     (let jl1 = assign (\<lambda>j. j\<lparr>status := Processing\<rparr>) jl;
          jl2 = assign (\<lambda>j. j\<lparr>message := asc ''Processing documents...''\<rparr>) jl1;
          job_dir = path_div temp_dir job_id;
          output_base_dir = path_div job_dir (asc ''output'')
      in case mkdir sv fs output_base_dir of
           (Some e, fs1) \<Rightarrow> (Some e, jl2, fs1)
         | (None, fs1) \<Rightarrow>
            (case (if merge then mkdir sv fs1 (path_div output_base_dir (asc ''merged_articles''))
                   else (None, fs1)) of
               (Some e, fs2) \<Rightarrow> (Some e, jl2, fs2)
             | (None, fs2) \<Rightarrow>
                (case process_files sv merge output_base_dir (length file_paths) 0 file_paths 0
                        jl2 fs2 of
                   (Inl e, jl3, fs3) \<Rightarrow> (Some e, jl3, fs3)
                 | (Inr articles_total, jl3, fs3) \<Rightarrow>
                    (let jl4 = assign (\<lambda>j. j\<lparr>message := asc ''Creating archive...''\<rparr>) jl3;
                         jl5 = assign (\<lambda>j. j\<lparr>progress := 95\<rparr>) jl4;
                         zip = path_div job_dir (job_id @ asc ''.zip'')
                     in case create_zip_archive sv fs3 output_base_dir zip of
                          (Some e, fs4) \<Rightarrow> (Some e, jl5, fs4)
                        | (None, fs4) \<Rightarrow>
                           (let jl6 = assign (\<lambda>j. j\<lparr>status := Completed\<rparr>) jl5;
                                jl7 = assign (\<lambda>j. j\<lparr>message :=
                                         asc ''Processing completed successfully''\<rparr>) jl6;
                                jl8 = assign (\<lambda>j. j\<lparr>progress := 100\<rparr>) jl7;
                                jl9 = assign (\<lambda>j. j\<lparr>total_articles := Some articles_total\<rparr>) jl8;
                                jl10 = assign (\<lambda>j. j\<lparr>zip_path := Some zip\<rparr>) jl9
                            in (None, jl10, fs4))))))"

text \<open>The handler of \<open>except Exception as e\<close>.\<close>

definition job_failed :: "pyexc \<Rightarrow> job_log \<Rightarrow> job_log" where
  "job_failed e jl =
     (let jl1 = assign (\<lambda>j. j\<lparr>status := Failed\<rparr>) jl;
          jl2 = assign (\<lambda>j. j\<lparr>message := asc ''Processing failed''\<rparr>) jl1;
          jl3 = assign (\<lambda>j. j\<lparr>error := Some (exc_str e)\<rparr>) jl2
      in assign (\<lambda>j. j\<lparr>progress := 0\<rparr>) jl3)"

definition process_documents_job ::
  "'fs services \<Rightarrow> pystr \<Rightarrow> pystr list \<Rightarrow> bool \<Rightarrow> job_log \<Rightarrow> 'fs \<Rightarrow> job_log \<times> 'fs" where
  "process_documents_job sv job_id file_paths merge jl fs =
     (case job_body sv job_id file_paths merge jl fs of
        (None, jl', fs') \<Rightarrow> (jl', fs')
      | (Some e, jl', fs') \<Rightarrow> (job_failed e jl', fs'))"

text \<open>
  A job from its submission to the end of the worker: the entries of the registry in
  order, from the one \<open>upload_documents\<close> creates, and the last entry.
\<close>

definition run_job ::
  "'fs services \<Rightarrow> 'fs \<Rightarrow> nat \<Rightarrow> pystr \<Rightarrow> pystr list \<Rightarrow> bool \<Rightarrow> job_log" where
  "run_job sv fs now job_id file_paths merge =
     fst (process_documents_job sv job_id file_paths merge
            (new_job now (length file_paths) merge, []) fs)"

definition job_trace ::
  "'fs services \<Rightarrow> 'fs \<Rightarrow> nat \<Rightarrow> pystr \<Rightarrow> pystr list \<Rightarrow> bool \<Rightarrow> job list" where
  "job_trace sv fs now job_id file_paths merge =
     new_job now (length file_paths) merge # snd (run_job sv fs now job_id file_paths merge)"

definition final_job ::
  "'fs services \<Rightarrow> 'fs \<Rightarrow> nat \<Rightarrow> pystr \<Rightarrow> pystr list \<Rightarrow> bool \<Rightarrow> job" where
  "final_job sv fs now job_id file_paths merge =
     fst (run_job sv fs now job_id file_paths merge)"

text \<open>
  One step of a job: the status stays, or goes from \<open>Pending\<close> to \<open>Processing\<close>, or from
  \<open>Processing\<close> to \<open>Completed\<close> or \<open>Failed\<close>; and from a status that is not terminal the
  progress does not fall.
\<close>

definition terminal :: "job_status \<Rightarrow> bool" where
  "terminal s \<longleftrightarrow> s = Completed \<or> s = Failed"

definition step_ok :: "job \<Rightarrow> job \<Rightarrow> bool" where
  "step_ok j j' \<longleftrightarrow>
     (status j' = status j \<or>
      (status j = Pending \<and> status j' = Processing) \<or>
      (status j = Processing \<and> terminal (status j'))) \<and>
     (terminal (status j) \<or> progress j \<le> progress j')"

text \<open>
  The results of \<open>process_document\<close> for the files, in order, as the loop of the worker
  obtains them (up to the first file that fails), and for a whole job.
\<close>

fun file_results ::
  "'fs services \<Rightarrow> bool \<Rightarrow> pystr \<Rightarrow> pystr list \<Rightarrow> 'fs \<Rightarrow> doc_result list" where
  "file_results sv merge output_base_dir [] fs = []"
| "file_results sv merge output_base_dir (file_path # rest) fs =
     (let dir = file_output_dir merge output_base_dir file_path
      in case (if merge then (None, fs) else mkdir sv fs dir) of
           (Some e, fs1) \<Rightarrow> []
         | (None, fs1) \<Rightarrow>
            (case process_document sv fs1 file_path dir of
               (Inl e, fs2) \<Rightarrow> []
             | (Inr result, fs2) \<Rightarrow> result # file_results sv merge output_base_dir rest fs2))"

definition job_results ::
  "'fs services \<Rightarrow> 'fs \<Rightarrow> pystr \<Rightarrow> pystr list \<Rightarrow> bool \<Rightarrow> doc_result list" where
  "job_results sv fs job_id file_paths merge =
     (let output_base_dir = path_div (path_div temp_dir job_id) (asc ''output'');
          fs1 = snd (mkdir sv fs output_base_dir);
          fs2 = (if merge then snd (mkdir sv fs1 (path_div output_base_dir (asc ''merged_articles'')))
                 else fs1)
      in file_results sv merge output_base_dir file_paths fs2)"

text \<open>The file system with a log of the paths that were written to, in order.\<close>

definition logged :: "'fs write_op \<Rightarrow> ('fs \<times> pystr list) write_op" where
  "logged wr = (\<lambda>(fs, written) path content.
     case wr fs path content of (r, fs') \<Rightarrow> (r, (fs', written @ [path])))"

text \<open>
  The invariant of the worker on the entries of its job: every step so far is a step of
  the kind above, and the entry is the last of them.
\<close>

definition log_ok :: "job \<Rightarrow> job_log \<Rightarrow> bool" where
  "log_ok job0 jl \<longleftrightarrow> successively step_ok (job0 # snd jl) \<and> fst jl = last (job0 # snd jl)"

subsection \<open>Services for runs on concrete values\<close>

text \<open>
  Services with a file system without state: a model that finds the two sentences of one
  article in every text, readers that return a text, and operations on files that
  succeed. In \<open>readonly_services\<close> every write of a file fails with an \<open>OSError\<close>; in
  \<open>silent_services\<close> the model raises an exception that has no message, as
  \<open>MemoryError()\<close> or a bare \<open>assert\<close> do.
\<close>

definition plain_services :: "unit services" where
  "plain_services =
     \<lparr>nlp_model = (\<lambda>_. Inr \<lparr>sents = [sent_article1, sent_body1], tokens = []\<rparr>),
      str_lower = ascii_lower,
      extract_from_docx = (\<lambda>_ _. Inr (sent_article1 @ 32 # sent_body1)),
      extract_from_pdf = (\<lambda>_ _. Inr (sent_article1 @ 32 # sent_body1)),
      makedirs = (\<lambda>fs _. (None, fs)),
      mkdir = (\<lambda>fs _. (None, fs)),
      write_file = (\<lambda>fs _ _. (None, fs)),
      create_zip_archive = (\<lambda>fs _ _. (None, fs))\<rparr>"

definition readonly_services :: "unit services" where
  "readonly_services =
     plain_services\<lparr>write_file := (\<lambda>fs _ _. (Some (OSError (asc ''Read-only file system'')), fs))\<rparr>"

definition silent_services :: "unit services" where
  "silent_services = plain_services\<lparr>nlp_model := (\<lambda>_. Inl (OtherException []))\<rparr>"

section \<open>Properties of the segmentation\<close>

subsection \<open>Strings and patterns\<close>

lemma dropWhile_all_iff: "(\<forall>x\<in>set (dropWhile P s). P x) \<longleftrightarrow> (\<forall>x\<in>set s. P x)"
proof
  assume a: "\<forall>x\<in>set (dropWhile P s). P x"
  have "dropWhile P s = []"
  proof (rule ccontr)
    assume n: "dropWhile P s \<noteq> []"
    then have "\<not> P (hd (dropWhile P s))" by (rule hd_dropWhile)
    moreover have "hd (dropWhile P s) \<in> set (dropWhile P s)" using n by simp
    ultimately show False using a by blast
  qed
  then show "\<forall>x\<in>set s. P x" by (simp add: dropWhile_eq_Nil_conv)
next
  assume "\<forall>x\<in>set s. P x"
  then show "\<forall>x\<in>set (dropWhile P s). P x" by (meson set_dropWhileD)
qed

lemma strip_eq_Nil_iff: "strip s = [] \<longleftrightarrow> (\<forall>c\<in>set s. is_space c)"
  by (simp add: strip_def dropWhile_eq_Nil_conv dropWhile_all_iff)

lemma hd_strip:
  assumes "strip s \<noteq> []"
  shows "\<not> is_space (hd (strip s))"
proof -
  define t where "t = dropWhile is_space s"
  define u where "u = dropWhile is_space (rev t)"
  have su: "strip s = rev u" by (simp add: strip_def t_def u_def)
  then have une: "u \<noteq> []" using assms by simp
  then have tne: "t \<noteq> []" unfolding u_def by auto
  have "rev t = takeWhile is_space (rev t) @ u" by (simp add: u_def)
  then have "last (rev t) = last u" using une by (metis last_appendR)
  then have "hd t = last u" using tne by (simp add: last_rev)
  moreover have "\<not> is_space (hd t)" using tne unfolding t_def by (rule hd_dropWhile)
  ultimately show ?thesis using une by (simp add: su hd_rev)
qed

lemma match_lit_length: "match_lit kw s = Some r \<Longrightarrow> length s = length kw + length r"
  by (induction kw s rule: match_lit.induct) (auto split: if_splits)

lemma digits1_length: "digits1 s = Some r \<Longrightarrow> length r < length s"
  by (auto simp: digits1_def less_Suc_eq_le length_dropWhile_le split: list.splits if_splits)

lemma skip_dotted_length: "length (skip_dotted s) \<le> length s"
proof (induction s rule: skip_dotted.induct)
  case (3 c d r)
  have "length (dropWhile is_decimal r) \<le> length r" by (rule length_dropWhile_le)
  with 3 show ?case by auto
qed simp_all

lemma opt_dot_length: "length (opt_dot s) \<le> length s"
  by (cases s) auto

lemma heading_prefix_length:
  assumes "heading_prefix kw s = Some r"
  shows "length r < length s"
proof -
  from assms obtain r1 r2 where m: "match_lit kw (dropWhile is_space s) = Some r1"
    and d: "digits1 (dropWhile is_space r1) = Some r2"
    and r: "r = dropWhile is_space (opt_dot r2)"
    by (auto simp: heading_prefix_def split: option.splits list.splits if_splits)
  have "length r \<le> length r2"
    unfolding r using length_dropWhile_le opt_dot_length le_trans by blast
  also have "\<dots> < length (dropWhile is_space r1)" using d by (rule digits1_length)
  also have "\<dots> \<le> length r1" by (rule length_dropWhile_le)
  also have "\<dots> \<le> length (dropWhile is_space s)" using match_lit_length[OF m] by simp
  also have "\<dots> \<le> length s" by (rule length_dropWhile_le)
  finally show ?thesis .
qed

lemma article_prefix_length:
  assumes "article_prefix s = Some r"
  shows "length r < length s"
proof -
  from assms obtain r1 r2 where m: "match_lit kw_article (dropWhile is_space s) = Some r1"
    and d: "digits1 (dropWhile is_space r1) = Some r2"
    and r: "r = dropWhile is_space (opt_dot (skip_dotted r2))"
    by (auto simp: article_prefix_def dotted_number_def split: option.splits)
  have "length r \<le> length (opt_dot (skip_dotted r2))"
    unfolding r by (rule length_dropWhile_le)
  also have "\<dots> \<le> length (skip_dotted r2)" by (rule opt_dot_length)
  also have "\<dots> \<le> length r2" by (rule skip_dotted_length)
  also have "\<dots> < length (dropWhile is_space r1)" using d by (rule digits1_length)
  also have "\<dots> \<le> length r1" by (rule length_dropWhile_le)
  also have "\<dots> \<le> length (dropWhile is_space s)" using match_lit_length[OF m] by simp
  also have "\<dots> \<le> length s" by (rule length_dropWhile_le)
  finally show ?thesis .
qed

lemma group0_hd:
  assumes "length r < length s"
  shows "group0 s r \<noteq> [] \<and> hd (group0 s r) = hd s"
proof -
  have "length (dropWhile (\<lambda>c. c \<noteq> 10) r) \<le> length r" by (rule length_dropWhile_le)
  with assms have "0 < length s - length (dropWhile (\<lambda>c. c \<noteq> 10) r)" by simp
  moreover from assms have "s \<noteq> []" by auto
  ultimately show ?thesis by (cases s) (auto simp: group0_def take_Cons')
qed

lemma heading_title_truthy:
  assumes "map_option (group0 (strip h)) p = Some g" and "\<And>r. p = Some r \<Longrightarrow> length r < length (strip h)"
  shows "strip g \<noteq> []"
proof -
  from assms obtain r where g: "g = group0 (strip h) r" and l: "length r < length (strip h)"
    by auto
  from l have ne: "strip h \<noteq> []" by auto
  have "g \<noteq> []" and "hd g = hd (strip h)" using group0_hd[OF l] g by simp_all
  moreover have "\<not> is_space (hd (strip h))" using ne by (rule hd_strip)
  ultimately have "\<exists>c\<in>set g. \<not> is_space c" by (metis hd_in_set)
  then show ?thesis by (simp add: strip_eq_Nil_iff)
qed

lemma section_title_truthy: "section_start_pattern (strip h) = Some g \<Longrightarrow> strip g \<noteq> []"
  unfolding section_start_pattern_def by (erule heading_title_truthy) (rule heading_prefix_length)

lemma chapter_title_truthy: "chapter_start_pattern (strip h) = Some g \<Longrightarrow> strip g \<noteq> []"
  unfolding chapter_start_pattern_def by (erule heading_title_truthy) (rule heading_prefix_length)

lemma paragraph_title_truthy: "paragraph_start_pattern (strip h) = Some g \<Longrightarrow> strip g \<noteq> []"
  unfolding paragraph_start_pattern_def by (erule heading_title_truthy) (rule heading_prefix_length)

lemma article_title_truthy: "article_start_pattern (strip h) = Some g \<Longrightarrow> strip g \<noteq> []"
  unfolding article_start_pattern_def by (erule heading_title_truthy) (rule article_prefix_length)

lemma chapter_not_section:
  assumes "chapter_start_pattern s = Some g"
  shows "section_start_pattern s = None"
proof (cases "dropWhile is_space s")
  case Nil
  show ?thesis
    unfolding section_start_pattern_def heading_prefix_def kw_section_def Nil by simp
next
  case (Cons c cs)
  with assms have "c = 1043 \<or> c = 1075"
    by (auto simp: chapter_start_pattern_def heading_prefix_def kw_chapter_def
        split: option.splits if_splits)
  with Cons show ?thesis
    by (auto simp: section_start_pattern_def heading_prefix_def kw_section_def)
qed

lemma str_join_ink:
  "\<exists>c\<in>set x. \<not> is_space c \<Longrightarrow> \<exists>c\<in>set (str_join sep (x # xs)). \<not> is_space c"
  by (cases xs) auto

lemma strip_ink: "strip s \<noteq> [] \<Longrightarrow> \<exists>c\<in>set (strip s). \<not> is_space c"
  using hd_strip[of s] hd_in_set[of "strip s"] by blast

lemma add_article_ok: "seg_ok st \<Longrightarrow> seg_ok (add_article_to_list st)"
proof -
  assume ok: "seg_ok st"
  show ?thesis
  proof (cases "current_article_content st")
    case Nil
    with ok show ?thesis by (simp add: seg_ok_def add_article_to_list_def)
  next
    case (Cons l ls)
    with ok have "\<exists>c\<in>set l. \<not> is_space c" by (simp add: seg_ok_def)
    then have "\<exists>c\<in>set (str_join [10] (l # ls)). \<not> is_space c" by (rule str_join_ink)
    then have "strip (str_join [10] (l # ls)) \<noteq> []" by (simp add: strip_eq_Nil_iff)
    with ok Cons show ?thesis by (auto simp: seg_ok_def add_article_to_list_def)
  qed
qed

lemma add_article_content: "current_article_content (add_article_to_list st) = []"
  by (simp add: add_article_to_list_def Let_def)

lemma seg_ok_upd:
  "seg_ok st \<Longrightarrow> seg_ok (st\<lparr>current_section_title := a\<rparr>)"
  "seg_ok st \<Longrightarrow> seg_ok (st\<lparr>current_chapter_title := a\<rparr>)"
  "seg_ok st \<Longrightarrow> seg_ok (st\<lparr>current_paragraph_title := a\<rparr>)"
  "seg_ok st \<Longrightarrow> seg_ok (st\<lparr>current_article_full_title := a\<rparr>)"
  by (simp_all add: seg_ok_def)

lemma scan_sentence_ok:
  assumes "seg_ok st"
  shows "seg_ok (scan_sentence st s)"
proof (cases "strip s = []")
  case True
  with assms show ?thesis by (simp add: scan_sentence_def Let_def)
next
  case False
  then have ink: "\<exists>c\<in>set (strip s). \<not> is_space c" by (rule strip_ink)
  have a: "seg_ok (add_article_to_list st)" using assms by (rule add_article_ok)
  have b: "seg_ok ((add_article_to_list st)\<lparr>current_article_full_title := t,
      current_article_content := [strip s]\<rparr>)" for t
    using a ink by (simp add: seg_ok_def)
  have c: "seg_ok (st\<lparr>current_article_content := current_article_content st @ [strip s]\<rparr>)"
    using assms ink by (simp add: seg_ok_def)
  show ?thesis
    using False assms a b c
    by (simp add: scan_sentence_def Let_def seg_ok_upd split: option.splits)
qed

lemma foldl_scan_ok: "seg_ok st \<Longrightarrow> seg_ok (foldl scan_sentence st ss)"
  by (induction ss arbitrary: st) (simp_all add: scan_sentence_ok)

lemma seg_init_ok: "seg_ok seg_init"
  by (simp add: seg_ok_def seg_init_def)

lemma segment_sents_ok:
  "a \<in> set (segment_sents ss) \<Longrightarrow> truthy (article_title (metadata a)) \<and> page_content a \<noteq> []"
  using add_article_ok[OF foldl_scan_ok[OF seg_init_ok, of ss]]
  by (simp add: segment_sents_def seg_ok_def)

subsection \<open>The patterns on the sentences of the scenario\<close>

lemmas pattern_defs = section_start_pattern_def chapter_start_pattern_def
  paragraph_start_pattern_def article_start_pattern_def heading_prefix_def article_prefix_def
  kw_section_def kw_chapter_def kw_paragraph_def kw_article_def is_space_def digits1_def
  dotted_number_def is_decimal_def decimal_ranges_def group0_def strip_def

lemma sent_section1_eval:
  "strip sent_section1 = sent_section1" "sent_section1 \<noteq> []"
  "section_start_pattern sent_section1 = Some sent_section1"
  by (simp_all add: pattern_defs sent_section1_def)

lemma sent_article1_eval:
  "strip sent_article1 = sent_article1" "sent_article1 \<noteq> []"
  "section_start_pattern sent_article1 = None" "chapter_start_pattern sent_article1 = None"
  "paragraph_start_pattern sent_article1 = None"
  "article_start_pattern sent_article1 = Some sent_article1"
  by (simp_all add: pattern_defs sent_article1_def)

lemma sent_body1_eval:
  "strip sent_body1 = sent_body1" "sent_body1 \<noteq> []"
  "section_start_pattern sent_body1 = None" "chapter_start_pattern sent_body1 = None"
  "paragraph_start_pattern sent_body1 = None" "article_start_pattern sent_body1 = None"
  by (simp_all add: pattern_defs sent_body1_def)

lemma sent_article2_eval:
  "strip sent_article2 = sent_article2" "sent_article2 \<noteq> []"
  "section_start_pattern sent_article2 = None" "chapter_start_pattern sent_article2 = None"
  "paragraph_start_pattern sent_article2 = None"
  "article_start_pattern sent_article2 = Some sent_article2"
  by (simp_all add: pattern_defs sent_article2_def)

lemma sent_body2_eval:
  "strip sent_body2 = sent_body2" "sent_body2 \<noteq> []"
  "section_start_pattern sent_body2 = None" "chapter_start_pattern sent_body2 = None"
  "paragraph_start_pattern sent_body2 = None" "article_start_pattern sent_body2 = None"
  by (simp_all add: pattern_defs sent_body2_def)

lemma sent_chapter1_eval:
  "strip sent_chapter1 = sent_chapter1" "sent_chapter1 \<noteq> []"
  "section_start_pattern sent_chapter1 = None"
  "chapter_start_pattern sent_chapter1 = Some sent_chapter1"
  by (simp_all add: pattern_defs sent_chapter1_def)

lemma strip_content1: "strip (sent_article1 @ 10 # sent_body1) = sent_article1 @ 10 # sent_body1"
  by (simp add: strip_def is_space_def sent_article1_def sent_body1_def)

lemma strip_content2: "strip (sent_article2 @ 10 # sent_body2) = sent_article2 @ 10 # sent_body2"
  by (simp add: strip_def is_space_def sent_article2_def sent_body2_def)

lemmas scenario_eval = sent_section1_eval sent_article1_eval sent_body1_eval
  sent_article2_eval sent_body2_eval sent_chapter1_eval strip_content1 strip_content2

lemmas scan_defs = segment_sents_def seg_init_def scan_sentence_def add_article_to_list_def
  keep_truthy_def article_of_def

lemma segment_sents_scenario:
  "segment_sents [sent_section1, sent_article1, sent_body1, sent_article2, sent_body2] =
     [article_of (Some sent_section1) sent_article1 sent_body1,
      article_of (Some sent_section1) sent_article2 sent_body2]"
  by (simp add: scan_defs scenario_eval)

lemma segment_sents_one_article:
  "segment_sents [sent_article1, sent_body1] = [article_of None sent_article1 sent_body1]"
  by (simp add: scan_defs scenario_eval)
text \<open>
  C1. Whatever the sentences the linguistic model gives for a text, every article that
  \<open>segment_into_articles\<close> emits has a title and a content that are not empty; and a
  flush with no title or with an empty buffer emits nothing.
\<close>

theorem emitted_articles_nonempty:
  "(segment_into_articles nlp doc_text = Inr arts \<longrightarrow>
      (\<forall>a\<in>set arts. truthy (article_title (metadata a)) \<and> page_content a \<noteq> [])) \<and>
   (\<not> truthy (current_article_full_title st) \<or> current_article_content st = [] \<longrightarrow>
      langchain_articles (add_article_to_list st) = langchain_articles st)"
  by (auto simp: segment_into_articles_def add_article_to_list_def
      dest: segment_sents_ok split: sum.splits)

theorem emitted_articles_nonempty_witness:
  "segment_into_articles (\<lambda>_. Inr \<lparr>sents = [sent_article1, sent_body1], tokens = []\<rparr>) []
     = Inr [article_of None sent_article1 sent_body1] \<and>
   truthy (article_title (metadata (article_of None sent_article1 sent_body1))) \<and>
   page_content (article_of None sent_article1 sent_body1) \<noteq> [] \<and>
   current_article_content seg_init = [] \<and>
   langchain_articles (add_article_to_list seg_init) = langchain_articles seg_init"
proof -
  let ?nlp = "\<lambda>_ :: pystr. Inr \<lparr>sents = [sent_article1, sent_body1], tokens = []\<rparr> :: pyexc + spacy_doc"
  have r: "segment_into_articles ?nlp [] = Inr [article_of None sent_article1 sent_body1]"
    by (simp add: segment_into_articles_def segment_sents_one_article)
  have e: "current_article_content seg_init = []"
    by (simp add: seg_init_def)
  show ?thesis
    using emitted_articles_nonempty
      [of ?nlp "[]" "[article_of None sent_article1 sent_body1]" seg_init] r e
    by simp
qed

subsection \<open>Hierarchical carry-over\<close>

lemma emits_with_refl: "emits_with t st st"
  by (simp add: emits_with_def)

lemma emits_with_trans: "emits_with t a b \<Longrightarrow> emits_with t b c \<Longrightarrow> emits_with t a c"
  by (auto simp: emits_with_def)

lemma add_article_fields:
  "current_section_title (add_article_to_list st) = current_section_title st"
  "current_chapter_title (add_article_to_list st) = current_chapter_title st"
  "current_paragraph_title (add_article_to_list st) = current_paragraph_title st"
  by (simp_all add: add_article_to_list_def Let_def)

lemma add_article_emits:
  "truthy (current_section_title st) \<Longrightarrow>
   emits_with (current_section_title st) st (add_article_to_list st)"
  by (simp add: emits_with_def add_article_to_list_def keep_truthy_def)

lemma scan_sentence_emits:
  assumes "truthy (current_section_title st)"
  shows "emits_with (current_section_title st) st (scan_sentence st s)"
proof -
  have a: "emits_with (current_section_title st) st (add_article_to_list st)"
    using assms by (rule add_article_emits)
  have b: "emits_with (current_section_title st) st st'"
    if "langchain_articles st' = langchain_articles (add_article_to_list st)" for st'
    using a that by (simp add: emits_with_def)
  have c: "emits_with (current_section_title st) st st'"
    if "langchain_articles st' = langchain_articles st" for st'
    using that by (simp add: emits_with_def)
  have "langchain_articles (scan_sentence st s) = langchain_articles st \<or>
        langchain_articles (scan_sentence st s) = langchain_articles (add_article_to_list st)"
    by (simp add: scan_sentence_def Let_def split: option.splits)
  then show ?thesis using b c by blast
qed

lemma scan_sentence_section_kept:
  assumes "section_start_pattern (strip s) = None"
  shows "current_section_title (scan_sentence st s) = current_section_title st"
  using assms by (simp add: scan_sentence_def Let_def add_article_fields split: option.splits)

lemma foldl_scan_emits:
  assumes "truthy t" and "current_section_title st = t"
    and "\<forall>s\<in>set rest. section_start_pattern (strip s) = None"
  shows "emits_with t st (foldl scan_sentence st rest) \<and>
         current_section_title (foldl scan_sentence st rest) = t"
  using assms(2,3)
proof (induction rest arbitrary: st)
  case Nil
  then show ?case by (simp add: emits_with_refl)
next
  case (Cons s rest)
  have k: "current_section_title (scan_sentence st s) = t"
    using Cons.prems by (simp add: scan_sentence_section_kept)
  have e: "emits_with t st (scan_sentence st s)"
    using scan_sentence_emits[of st s] assms(1) Cons.prems(1) by simp
  from Cons.IH[OF k] Cons.prems(2)
  have "emits_with t (scan_sentence st s) (foldl scan_sentence (scan_sentence st s) rest)"
    and "current_section_title (foldl scan_sentence (scan_sentence st s) rest) = t"
    by simp_all
  with e show ?case by (auto intro: emits_with_trans)
qed

lemma scan_section_sets:
  assumes "section_start_pattern (strip h) = Some g"
  shows "current_section_title (scan_sentence st h) = Some (strip g)"
proof -
  have "strip h \<noteq> []"
    using assms by (auto simp: section_start_pattern_def heading_prefix_def kw_section_def)
  with assms show ?thesis by (simp add: scan_sentence_def Let_def)
qed

text \<open>
  C2. After a section heading \<open>h\<close> is scanned, with title \<open>strip g\<close>, and as long as no other
  section heading follows (the sentences \<open>rest\<close>), every article emitted afterwards carries
  that section title: those emitted while \<open>rest\<close> is scanned and by the last flush, and
  those a next sentence \<open>h'\<close> of any kind (the next section heading too) makes the scan
  emit. A chapter heading \<open>c\<close> leaves the section title as it is and clears the paragraph
  marker. A flush changes none of the three titles.
\<close>

theorem hierarchical_carry_over:
  "(section_start_pattern (strip h) = Some g \<and>
    (\<forall>s\<in>set rest. section_start_pattern (strip s) = None) \<longrightarrow>
      (\<exists>new. langchain_articles (add_article_to_list (foldl scan_sentence (scan_sentence st h) rest))
                = langchain_articles (scan_sentence st h) @ new \<and>
             (\<forall>a\<in>set new. section_title (metadata a) = Some (strip g))) \<and>
      (\<exists>new. langchain_articles (scan_sentence (foldl scan_sentence (scan_sentence st h) rest) h')
                = langchain_articles (scan_sentence st h) @ new \<and>
             (\<forall>a\<in>set new. section_title (metadata a) = Some (strip g)))) \<and>
   (chapter_start_pattern (strip c) = Some gc \<longrightarrow>
      current_section_title (scan_sentence st c) = current_section_title st \<and>
      current_paragraph_title (scan_sentence st c) = None) \<and>
   current_section_title (add_article_to_list st) = current_section_title st \<and>
   current_chapter_title (add_article_to_list st) = current_chapter_title st \<and>
   current_paragraph_title (add_article_to_list st) = current_paragraph_title st"
proof (intro conjI impI)
  assume a: "section_start_pattern (strip h) = Some g \<and>
    (\<forall>s\<in>set rest. section_start_pattern (strip s) = None)"
  let ?t = "Some (strip g)"
  let ?st1 = "scan_sentence st h"
  let ?st2 = "foldl scan_sentence ?st1 rest"
  have t: "truthy ?t" using a section_title_truthy[of h g] by simp
  have s1: "current_section_title ?st1 = ?t" using a by (simp add: scan_section_sets)
  have f: "emits_with ?t ?st1 ?st2" and s2: "current_section_title ?st2 = ?t"
    using foldl_scan_emits[OF t s1] a by simp_all
  have "emits_with ?t ?st2 (add_article_to_list ?st2)"
    using add_article_emits[of ?st2] t s2 by simp
  with f have "emits_with ?t ?st1 (add_article_to_list ?st2)" by (rule emits_with_trans)
  then show "\<exists>new. langchain_articles (add_article_to_list ?st2) = langchain_articles ?st1 @ new \<and>
             (\<forall>a\<in>set new. section_title (metadata a) = ?t)"
    by (simp add: emits_with_def)
  have "emits_with ?t ?st2 (scan_sentence ?st2 h')"
    using scan_sentence_emits[of ?st2 h'] t s2 by simp
  with f have "emits_with ?t ?st1 (scan_sentence ?st2 h')" by (rule emits_with_trans)
  then show "\<exists>new. langchain_articles (scan_sentence ?st2 h') = langchain_articles ?st1 @ new \<and>
             (\<forall>a\<in>set new. section_title (metadata a) = ?t)"
    by (simp add: emits_with_def)
next
  assume c: "chapter_start_pattern (strip c) = Some gc"
  then have n: "section_start_pattern (strip c) = None" by (rule chapter_not_section)
  have ne: "strip c \<noteq> []"
    using c by (auto simp: chapter_start_pattern_def heading_prefix_def kw_chapter_def)
  show "current_section_title (scan_sentence st c) = current_section_title st"
    using n by (rule scan_sentence_section_kept)
  show "current_paragraph_title (scan_sentence st c) = None"
    using c n ne by (simp add: scan_sentence_def Let_def add_article_fields)
qed (simp_all add: add_article_fields)

theorem hierarchical_carry_over_witness:
  "section_start_pattern (strip sent_section1) = Some sent_section1 \<and>
   section_start_pattern (strip sent_article1) = None \<and>
   section_start_pattern (strip sent_body1) = None \<and>
   (\<exists>new. langchain_articles (add_article_to_list
              (foldl scan_sentence (scan_sentence seg_init sent_section1)
                 [sent_article1, sent_body1]))
            = langchain_articles (scan_sentence seg_init sent_section1) @ new \<and>
          list_all (\<lambda>a. section_title (metadata a) = Some (strip sent_section1)) new) \<and>
   chapter_start_pattern (strip sent_chapter1) = Some sent_chapter1 \<and>
   current_section_title (scan_sentence seg_init sent_chapter1) = current_section_title seg_init \<and>
   current_paragraph_title (scan_sentence seg_init sent_chapter1) = None"
proof -
  have h: "section_start_pattern (strip sent_section1) = Some sent_section1"
    and r1: "section_start_pattern (strip sent_article1) = None"
    and r2: "section_start_pattern (strip sent_body1) = None"
    and c: "chapter_start_pattern (strip sent_chapter1) = Some sent_chapter1"
    by (simp_all add: scenario_eval)
  have r: "\<forall>s\<in>set [sent_article1, sent_body1]. section_start_pattern (strip s) = None"
    using r1 r2 by simp
  show ?thesis
    using hierarchical_carry_over
      [of sent_section1 sent_section1 "[sent_article1, sent_body1]" seg_init "[]"
          sent_chapter1 sent_chapter1] h r1 r2 r c
    by (simp add: list_all_iff)
qed

subsection \<open>The scenario of five sentences\<close>

text \<open>
  C3. On the five sentences of the scenario, \<open>segment_into_articles\<close> emits exactly two
  articles, both with the section title of the first sentence; the first has the title
  of the first article heading and its content holds the sentence that follows it, and
  the same for the second.
\<close>

theorem scenario_two_articles:
  "segment_into_articles
     (\<lambda>_. Inr \<lparr>sents = [sent_section1, sent_article1, sent_body1, sent_article2, sent_body2],
                tokens = toks\<rparr>) doc_text
   = Inr [\<lparr>page_content = sent_article1 @ 10 # sent_body1,
           metadata = \<lparr>article_title = Some sent_article1,
                       section_title = Some sent_section1, chapter_title = None,
                       paragraph_title = None, md_keywords = None, topic = None\<rparr>\<rparr>,
          \<lparr>page_content = sent_article2 @ 10 # sent_body2,
           metadata = \<lparr>article_title = Some sent_article2,
                       section_title = Some sent_section1, chapter_title = None,
                       paragraph_title = None, md_keywords = None, topic = None\<rparr>\<rparr>] \<and>
   sublist sent_body1 (sent_article1 @ 10 # sent_body1) \<and>
   sublist sent_body2 (sent_article2 @ 10 # sent_body2)"
proof -
  have "sublist b (a @ 10 # b)" for a b :: pystr
    unfolding sublist_def by (intro exI[of _ "a @ [10]"] exI[of _ "[]"]) simp
  then show ?thesis
    by (simp add: segment_into_articles_def segment_sents_scenario article_of_def)
qed

section \<open>Properties of the keywords\<close>

lemma counter_incr_keys: "set (map fst (counter_incr c k)) = insert k (set (map fst c))"
  by (induction c k rule: counter_incr.induct) auto

lemma counter_incr_distinct: "distinct (map fst c) \<Longrightarrow> distinct (map fst (counter_incr c k))"
proof (induction c k rule: counter_incr.induct)
  case (2 k' n c k)
  then show ?case using counter_incr_keys[of c k] by auto
qed simp

lemma count_token_distinct:
  "distinct (map fst c) \<Longrightarrow> distinct (map fst (count_token lower tt c t))"
  by (simp add: count_token_def Let_def counter_incr_distinct)

lemma foldl_count_token_distinct:
  "distinct (map fst c) \<Longrightarrow> distinct (map fst (foldl (count_token lower tt) c ts))"
  by (induction ts arbitrary: c) (simp_all add: count_token_distinct)

lemma most_common_distinct: "distinct (map fst c) \<Longrightarrow> distinct (map fst (most_common c))"
  by (simp add: most_common_def distinct_map)

lemma slice_to_length: "0 \<le> n \<Longrightarrow> int (length (slice_to xs n)) \<le> n"
  by (simp add: slice_to_def)

lemma slice_to_set: "set (slice_to xs n) \<subseteq> set xs"
  by (auto simp: slice_to_def dest: in_set_takeD)

lemma slice_to_distinct: "distinct xs \<Longrightarrow> distinct (slice_to xs n)"
  by (simp add: slice_to_def)

text \<open>
  C4. The keywords that \<open>extract_keywords_and_topic\<close> returns are at most \<open>num_keywords\<close>
  (for a count \<open>num_keywords\<close>, a number that is not negative), are pairwise distinct, are
  each longer than two characters, and none is among the filtered lemmas of the title.
\<close>

theorem keywords_bounded_distinct:
  "extract_keywords_and_topic nlp lower txt title num_keywords = Inr (keywords, tp) \<longrightarrow>
     (0 \<le> num_keywords \<longrightarrow> int (length keywords) \<le> num_keywords) \<and>
     distinct keywords \<and>
     (\<forall>k\<in>set keywords. 2 < length k) \<and>
     (\<forall>title_doc. nlp title = Inr title_doc \<longrightarrow>
        (\<forall>k\<in>set keywords. k \<notin> title_tokens lower (tokens title_doc)))"
proof
  assume a: "extract_keywords_and_topic nlp lower txt title num_keywords = Inr (keywords, tp)"
  then obtain doc title_doc where d: "nlp txt = Inr doc" and t: "nlp title = Inr title_doc"
    by (auto simp: extract_keywords_and_topic_def split: sum.splits)
  define tt where "tt = title_tokens lower (tokens title_doc)"
  define cands where "cands = foldl (count_token lower tt) [] (tokens doc)"
  define filtered where
    "filtered = map fst (filter (\<lambda>(item, count). 2 < length item \<and> item \<notin> tt) (most_common cands))"
  have k: "keywords = slice_to filtered num_keywords"
    using a d t by (simp add: extract_keywords_and_topic_def Let_def tt_def cands_def filtered_def)
  have "distinct (map fst cands)"
    unfolding cands_def by (rule foldl_count_token_distinct) simp
  then have "distinct (map fst (most_common cands))" by (rule most_common_distinct)
  then have df: "distinct filtered" unfolding filtered_def by (rule distinct_map_filter)
  have pf: "2 < length x \<and> x \<notin> tt" if "x \<in> set filtered" for x
    using that by (auto simp: filtered_def)
  have sub: "set keywords \<subseteq> set filtered" unfolding k by (rule slice_to_set)
  show "(0 \<le> num_keywords \<longrightarrow> int (length keywords) \<le> num_keywords) \<and>
     distinct keywords \<and>
     (\<forall>k\<in>set keywords. 2 < length k) \<and>
     (\<forall>title_doc. nlp title = Inr title_doc \<longrightarrow>
        (\<forall>k\<in>set keywords. k \<notin> title_tokens lower (tokens title_doc)))"
    using df pf sub t by (auto simp: k slice_to_length slice_to_distinct tt_def)
qed

lemma wit_keywords_eval:
  "extract_keywords_and_topic wit_nlp ascii_lower (asc ''the tax rates of duties duty.'') (asc ''Tax 1'') 1
    = Inr ([asc ''duty''], asc ''duty'')"
  by (simp add: extract_keywords_and_topic_def wit_nlp_def wit_title_doc_def wit_text_doc_def
      ascii_lower_def title_tokens_def is_candidate_def count_token_def most_common_def
      slice_to_def asc_def strip_def is_space_def)

theorem keywords_bounded_distinct_witness:
  "extract_keywords_and_topic wit_nlp ascii_lower (asc ''the tax rates of duties duty.'')
     (asc ''Tax 1'') 1 = Inr ([asc ''duty''], asc ''duty'') \<and>
   wit_nlp (asc ''Tax 1'') = Inr wit_title_doc \<and>
   int (length [asc ''duty'']) \<le> 1 \<and> distinct [asc ''duty''] \<and> 2 < length (asc ''duty'') \<and>
   asc ''duty'' \<notin> title_tokens ascii_lower (tokens wit_title_doc)"
proof -
  have t: "wit_nlp (asc ''Tax 1'') = Inr wit_title_doc" by (simp add: wit_nlp_def)
  show ?thesis
    using keywords_bounded_distinct
      [of wit_nlp ascii_lower "asc ''the tax rates of duties duty.''" "asc ''Tax 1''" 1
          "[asc ''duty'']" "asc ''duty''"] wit_keywords_eval t
    by simp
qed

section \<open>Properties of the file names\<close>

lemma strip_set: "set (strip s) \<subseteq> set s"
proof -
  have d: "set (dropWhile P xs) \<subseteq> set xs" for P and xs :: pystr
    by (meson set_dropWhileD subsetI)
  have "set (strip s) = set (dropWhile is_space (rev (dropWhile is_space s)))"
    by (simp add: strip_def)
  also have "\<dots> \<subseteq> set (rev (dropWhile is_space s))" by (rule d)
  also have "\<dots> = set (dropWhile is_space s)" by simp
  also have "\<dots> \<subseteq> set s" by (rule d)
  finally show ?thesis .
qed

lemma strip_length: "length (strip s) \<le> length s"
proof -
  have "length (strip s) = length (dropWhile is_space (rev (dropWhile is_space s)))"
    by (simp add: strip_def)
  also have "\<dots> \<le> length (rev (dropWhile is_space s))" by (rule length_dropWhile_le)
  also have "\<dots> = length (dropWhile is_space s)" by simp
  also have "\<dots> \<le> length s" by (rule length_dropWhile_le)
  finally show ?thesis .
qed

lemma sanitize_length:
  "0 \<le> n \<Longrightarrow> int (length (sanitize_string_for_filename s n)) \<le> n"
  by (simp add: sanitize_string_for_filename_def Let_def slice_to_length)

lemma sanitize_no_slash: "47 \<notin> set (sanitize_string_for_filename s n)"
proof
  assume "47 \<in> set (sanitize_string_for_filename s n)"
  then have "47 \<in> set (strip (map (\<lambda>c. if c = 32 then 95 else c)
      (filter (\<lambda>c. c \<notin> set unsafe_chars) s)))"
    using slice_to_set by (fastforce simp: sanitize_string_for_filename_def Let_def)
  then have "47 \<in> set (map (\<lambda>c. if c = 32 then 95 else c)
      (filter (\<lambda>c. c \<notin> set unsafe_chars) s))"
    using strip_set by blast
  then show False by (auto simp: unsafe_chars_def split: if_splits)
qed

lemma structure_id_length: "length (get_structure_filename_id t kw 50) \<le> 50"
  using sanitize_length[of 50] by (auto simp: get_structure_filename_id_def split: option.splits)

lemma structure_id_no_slash: "47 \<notin> set (get_structure_filename_id t kw n)"
  by (simp add: get_structure_filename_id_def sanitize_no_slash split: option.splits)

lemma keyword_segment_ok:
  "length (str_join [95] (map (\<lambda>k. sanitize_string_for_filename k 20) (slice_to ks 2))) \<le> 50 \<and>
   47 \<notin> set (str_join [95] (map (\<lambda>k. sanitize_string_for_filename k 20) (slice_to ks 2)))"
proof -
  have l: "length (sanitize_string_for_filename k 20) \<le> 20" for k
    using sanitize_length[of 20 k] by simp
  consider "ks = []" | a where "ks = [a]" | a b r where "ks = a # b # r"
    by (cases ks; cases "tl ks") auto
  then show ?thesis
  proof cases
    case 1
    then show ?thesis by (simp add: slice_to_def)
  next
    case 2
    then show ?thesis using l[of a] by (simp add: slice_to_def sanitize_no_slash)
  next
    case 3
    then show ?thesis
      using l[of a] l[of b] by (simp add: slice_to_def sanitize_no_slash numeral_2_eq_2)
  qed
qed

lemma filename_parts_ok:
  assumes "p \<in> set (filename_parts (sanitize_string_for_filename d 40) i doc)"
  shows "length p \<le> 50 \<and> 47 \<notin> set p"
proof -
  have a: "length (sanitize_string_for_filename d 40) \<le> 50"
    using sanitize_length[of 40 d] by simp
  have b: "length (sanitize_string_for_filename x 50) \<le> 50" for x
    using sanitize_length[of 50 x] by simp
  note k = keyword_segment_ok
  from assms show ?thesis
    unfolding filename_parts_def Let_def
    by (auto simp: a b k structure_id_length structure_id_no_slash sanitize_no_slash
        split: if_splits)
qed

lemma str_join_parts:
  assumes "\<forall>p\<in>set ps. length p \<le> 50 \<and> 47 \<notin> set p"
  shows "47 \<notin> set (str_join [95] ps) \<and> (50 < length (str_join [95] ps) \<longrightarrow> 95 \<in> set (str_join [95] ps))"
  using assms by (induction "[95::nat]" ps rule: str_join.induct) auto

lemma rfind_absent: "c \<notin> set s \<Longrightarrow> rfind c s = - 1"
  by (induction s) (auto simp: Let_def)

lemma rfind_last: "c \<notin> set t \<Longrightarrow> rfind c (b @ c # t) = int (length b)"
  by (induction b) (auto simp: Let_def rfind_absent)

lemma splitext_md:
  assumes "47 \<notin> set b" and "\<exists>c\<in>set b. c \<noteq> 46"
  shows "splitext (b @ asc ''.md'') = (b, asc ''.md'')"
proof -
  have m: "asc ''.md'' = [46, 109, 100]" by (simp add: asc_def)
  have s: "rfind 47 (b @ [46, 109, 100]) = - 1" using assms(1) by (simp add: rfind_absent)
  have d: "rfind 46 (b @ 46 # [109, 100]) = int (length b)" by (rule rfind_last) simp
  show ?thesis
    unfolding splitext_def m Let_def s using d assms(2) by (simp add: list_ex_iff)
qed

text \<open>
  C5. The file name synthesized for an article, with the sanitized name of the document
  as first part, has at most 200 characters and ends with \<open>.md\<close>; when the name as
  assembled is longer than 200 characters, the name has exactly 200 characters.
\<close>

theorem filename_length_limit:
  "length (article_filename (sanitize_string_for_filename doc_base_name 40) i article_doc) \<le> 200 \<and>
   endswith (article_filename (sanitize_string_for_filename doc_base_name 40) i article_doc)
     (asc ''.md'') \<and>
   (200 < length (assembled_filename (sanitize_string_for_filename doc_base_name 40) i article_doc)
      \<longrightarrow> length (article_filename (sanitize_string_for_filename doc_base_name 40) i article_doc)
            = 200)"
proof -
  define pre where "pre = sanitize_string_for_filename doc_base_name 40"
  define b where "b = str_join [95] (filter (\<lambda>p. p \<noteq> []) (filename_parts pre i article_doc))"
  have m: "asc ''.md'' = [46, 109, 100]" by (simp add: asc_def)
  have asm: "assembled_filename pre i article_doc = b @ asc ''.md''"
    by (simp add: assembled_filename_def b_def)
  have "\<forall>p\<in>set (filter (\<lambda>p. p \<noteq> []) (filename_parts pre i article_doc)).
          length p \<le> 50 \<and> 47 \<notin> set p"
    using filename_parts_ok[of _ doc_base_name i article_doc] by (simp add: pre_def)
  then have j: "47 \<notin> set b \<and> (50 < length b \<longrightarrow> 95 \<in> set b)"
    unfolding b_def by (rule str_join_parts)
  have fn: "article_filename pre i article_doc = limit_filename (b @ asc ''.md'')"
    by (simp add: article_filename_def asm)
  show ?thesis
  proof (cases "200 < length (b @ asc ''.md'')")
    case False
    then show ?thesis
      unfolding pre_def[symmetric] fn asm
      by (simp add: limit_filename_def endswith_def suffix_def)
  next
    case True
    then have big: "197 < length b" by (simp add: m)
    with j have "95 \<in> set b" by simp
    then have "\<exists>c\<in>set b. c \<noteq> 46" by (intro bexI[of _ 95]) simp_all
    with j have sp: "splitext (b @ asc ''.md'') = (b, asc ''.md'')" by (simp add: splitext_md)
    have "limit_filename (b @ asc ''.md'') = take 197 b @ asc ''.md''"
      using True by (simp add: limit_filename_def sp[unfolded m] slice_to_def m)
    then show ?thesis
      unfolding pre_def[symmetric] fn asm using big
      by (simp add: endswith_def m suffix_def)
  qed
qed

lemmas filename_defs = assembled_filename_def filename_parts_def full_article_title_def
  dict_get_def get_structure_filename_id_def structure_at_def sanitize_string_for_filename_def
  unsafe_chars_def slice_to_def strip_def is_space_def dotted_number_def digits1_def
  is_decimal_def decimal_ranges_def article_prefix_def kw_article_def kw_section_def
  kw_chapter_def kw_paragraph_def asc_def

lemma long_doc_assembled:
  "length (assembled_filename (sanitize_string_for_filename long_base 40) 4 long_doc) = 243"
  by (simp add: filename_defs long_doc_def long_number_def long_base_def sent_article1_def)

theorem filename_length_limit_witness:
  "200 < length (assembled_filename (sanitize_string_for_filename long_base 40) 4 long_doc) \<and>
   length (article_filename (sanitize_string_for_filename long_base 40) 4 long_doc) = 200 \<and>
   endswith (article_filename (sanitize_string_for_filename long_base 40) 4 long_doc)
     (asc ''.md'')"
  using filename_length_limit[of long_base 4 long_doc] long_doc_assembled by simp

section \<open>Properties of the rounding\<close>

lemma bitlen_bounds_rat:
  assumes "0 < a"
  shows "(2::rat) powi (bitlen a - 1) \<le> of_int a" and "(of_int a :: rat) < 2 powi bitlen a"
proof -
  from assms have b1: "1 \<le> bitlen a" by (auto simp: bitlen_alt_def)
  from bitlen_bounds[OF assms]
  have l: "2 ^ nat (bitlen a - 1) \<le> a" and u: "a < 2 ^ nat (bitlen a)" by simp_all
  have "(of_int (2 ^ nat (bitlen a - 1)) :: rat) \<le> of_int a" using l by (simp only: of_int_le_iff)
  then show "(2::rat) powi (bitlen a - 1) \<le> of_int a"
    using b1 by (simp add: power_int_def)
  have "(of_int a :: rat) < of_int (2 ^ nat (bitlen a))" using u by (simp only: of_int_less_iff)
  then show "(of_int a :: rat) < 2 powi bitlen a"
    using b1 by (simp add: power_int_def)
qed

lemma ilog2_bounds:
  assumes "0 < x"
  shows "2 powi ilog2 x \<le> x" and "x < 2 powi (ilog2 x + 1)"
proof -
  obtain a b where q: "quotient_of x = (a, b)" by (cases "quotient_of x")
  then have b: "0 < b" by (rule quotient_of_denom_pos)
  have x: "x = of_int a / of_int b" using q by (rule quotient_of_div)
  have a: "0 < a" using assms b x by (simp add: zero_less_divide_iff)
  define d where "d = bitlen a - bitlen b"
  have il: "ilog2 x = (if 2 powi d \<le> x then d else d - 1)"
    by (simp add: ilog2_def q d_def Let_def)
  note ba = bitlen_bounds_rat[OF a] and bb = bitlen_bounds_rat[OF b]
  have bpos: "(0::rat) < of_int b" using b by simp
  have "x < 2 powi bitlen a / 2 powi (bitlen b - 1)"
  proof -
    have "x < 2 powi bitlen a / of_int b"
      unfolding x using ba(2) bpos by (simp add: divide_strict_right_mono)
    also have "\<dots> \<le> 2 powi bitlen a / 2 powi (bitlen b - 1)"
      using bb(1) bpos by (intro divide_left_mono mult_pos_pos) simp_all
    finally show ?thesis .
  qed
  also have "\<dots> = 2 powi (bitlen a - (bitlen b - 1))"
    by (subst power_int_diff) simp_all
  also have "bitlen a - (bitlen b - 1) = d + 1"
    by (simp add: d_def)
  finally have up: "x < 2 powi (d + 1)" .
  have "(2::rat) powi (bitlen a - 1) / 2 powi bitlen b \<le> of_int a / 2 powi bitlen b"
    using ba(1) by (intro divide_right_mono) simp_all
  also have "\<dots> \<le> x"
    unfolding x using bb(2) a bpos by (intro divide_left_mono) (simp_all add: less_imp_le)
  finally have "(2::rat) powi (bitlen a - 1) / 2 powi bitlen b \<le> x" .
  moreover have "2 powi (bitlen a - 1) / (2::rat) powi bitlen b = 2 powi (bitlen a - 1 - bitlen b)"
    by (subst power_int_diff) simp_all
  moreover have "bitlen a - 1 - bitlen b = d - 1"
    by (simp add: d_def)
  ultimately have lo: "2 powi (d - 1) \<le> x" by simp
  show "2 powi ilog2 x \<le> x" using il lo by auto
  show "x < 2 powi (ilog2 x + 1)" using il up by (auto simp: not_le)
qed

lemma ilog2_unique:
  assumes "2 powi L \<le> x" and "x < 2 powi (L + 1)"
  shows "ilog2 x = L"
proof -
  have "(0::rat) < 2 powi L" by simp
  with assms have pos: "0 < x" by linarith
  note b = ilog2_bounds[OF pos]
  have "\<not> ilog2 x + 1 \<le> L"
  proof
    assume "ilog2 x + 1 \<le> L"
    then have "(2::rat) powi (ilog2 x + 1) \<le> 2 powi L" by (intro power_int_increasing) simp_all
    with b(2) assms(1) show False by linarith
  qed
  moreover have "\<not> L + 1 \<le> ilog2 x"
  proof
    assume "L + 1 \<le> ilog2 x"
    then have "(2::rat) powi (L + 1) \<le> 2 powi ilog2 x" by (intro power_int_increasing) simp_all
    with b(1) assms(2) show False by linarith
  qed
  ultimately show ?thesis by linarith
qed

lemma ilog2_mono:
  assumes "0 < x" and "x \<le> y"
  shows "ilog2 x \<le> ilog2 y"
proof (rule ccontr)
  assume "\<not> ilog2 x \<le> ilog2 y"
  then have "ilog2 y + 1 \<le> ilog2 x" by simp
  then have "(2::rat) powi (ilog2 y + 1) \<le> 2 powi ilog2 x" by (intro power_int_increasing) simp_all
  moreover have "0 < y" using assms by simp
  ultimately show False
    using ilog2_bounds(1)[OF assms(1)] ilog2_bounds(2)[OF \<open>0 < y\<close>] assms(2) by linarith
qed

lemma round_half_even_of_int: "round_half_even (of_int k) = k"
  by (simp add: round_half_even_def)

lemma round_half_even_range:
  "\<lfloor>x\<rfloor> \<le> round_half_even x" "round_half_even x \<le> \<lfloor>x\<rfloor> + 1"
  by (simp_all add: round_half_even_def Let_def)

lemma round_half_even_mono:
  assumes "x \<le> y"
  shows "round_half_even x \<le> round_half_even y"
proof (cases "\<lfloor>x\<rfloor> = \<lfloor>y\<rfloor>")
  case True
  then have "x - of_int \<lfloor>x\<rfloor> \<le> y - of_int \<lfloor>y\<rfloor>" using assms by simp
  with True show ?thesis by (auto simp: round_half_even_def Let_def)
next
  case False
  moreover have "\<lfloor>x\<rfloor> \<le> \<lfloor>y\<rfloor>" using assms by (rule floor_mono)
  ultimately have "\<lfloor>x\<rfloor> + 1 \<le> \<lfloor>y\<rfloor>" by simp
  with round_half_even_range(2)[of x] round_half_even_range(1)[of y] show ?thesis by linarith
qed

lemma fl_nonneg: "0 \<le> fl x"
proof (cases "x \<le> 0")
  case True
  then show ?thesis by (simp add: fl_def)
next
  case False
  then have "0 \<le> x / 2 powi quantum_exp x" by simp
  then have "round_half_even (of_int 0) \<le> round_half_even (x / 2 powi quantum_exp x)"
    by (intro round_half_even_mono) simp
  then have "0 \<le> round_half_even (x / 2 powi quantum_exp x)"
    by (simp only: round_half_even_of_int)
  with False show ?thesis by (simp add: fl_def)
qed

lemma fl_mono:
  assumes "x \<le> y"
  shows "fl x \<le> fl y"
proof (cases "x \<le> 0")
  case True
  then show ?thesis using fl_nonneg[of y] by (simp add: fl_def)
next
  case False
  then have x: "0 < x" and y: "0 < y" using assms by simp_all
  let ?ex = "quantum_exp x" and ?ey = "quantum_exp y"
  have e: "?ex \<le> ?ey" using ilog2_mono[OF x assms] by (simp add: quantum_exp_def)
  show ?thesis
  proof (cases "?ex = ?ey")
    case True
    have "x / 2 powi ?ey \<le> y / 2 powi ?ey" using assms by (simp add: divide_right_mono)
    then have "round_half_even (x / 2 powi ?ey) \<le> round_half_even (y / 2 powi ?ey)"
      by (rule round_half_even_mono)
    then have "(of_int (round_half_even (x / 2 powi ?ey)) :: rat) * 2 powi ?ey
        \<le> of_int (round_half_even (y / 2 powi ?ey)) * 2 powi ?ey"
      by (intro mult_right_mono) simp_all
    with x y True show ?thesis by (simp add: fl_def)
  next
    case False
    with e have lt: "?ex + 1 \<le> ?ey" by simp
    then have ey: "?ey = ilog2 y - 52" by (auto simp: quantum_exp_def)
    have "ilog2 x - 52 \<le> ?ex" by (simp add: quantum_exp_def)
    then have "(2::rat) powi (ilog2 x + 1) \<le> 2 powi (?ex + 53)"
      by (intro power_int_increasing) simp_all
    with ilog2_bounds(2)[OF x] have "x < 2 powi (?ex + 53)" by linarith
    also have "\<dots> = 2 ^ 53 * 2 powi ?ex" by (simp add: power_int_add)
    finally have "x / 2 powi ?ex < 2 ^ 53" by (simp add: pos_divide_less_eq)
    then have "x / 2 powi ?ex \<le> of_int (2 ^ 53)" by simp
    then have "round_half_even (x / 2 powi ?ex) \<le> round_half_even (of_int (2 ^ 53))"
      by (rule round_half_even_mono)
    then have rx: "round_half_even (x / 2 powi ?ex) \<le> 2 ^ 53"
      by (simp only: round_half_even_of_int)
    have "(of_int (round_half_even (x / 2 powi ?ex)) :: rat) \<le> of_int (2 ^ 53)"
      using rx by (simp only: of_int_le_iff)
    then have "(of_int (round_half_even (x / 2 powi ?ex)) :: rat) * 2 powi ?ex
        \<le> of_int (2 ^ 53) * 2 powi ?ex"
      by (intro mult_right_mono) simp_all
    then have fx: "fl x \<le> 2 powi (?ex + 53)"
      using x by (simp add: fl_def power_int_add)
    have "2 powi (?ey + 52) \<le> y" using ilog2_bounds(1)[OF y] by (simp add: ey)
    moreover have "(2::rat) powi (?ey + 52) = 2 ^ 52 * 2 powi ?ey" by (simp add: power_int_add)
    ultimately have "of_int (2 ^ 52) \<le> y / 2 powi ?ey" by (simp add: pos_le_divide_eq)
    then have "round_half_even (of_int (2 ^ 52)) \<le> round_half_even (y / 2 powi ?ey)"
      by (rule round_half_even_mono)
    then have ry: "2 ^ 52 \<le> round_half_even (y / 2 powi ?ey)"
      by (simp only: round_half_even_of_int)
    have "(of_int (2 ^ 52) :: rat) \<le> of_int (round_half_even (y / 2 powi ?ey))"
      using ry by (simp only: of_int_le_iff)
    then have "(of_int (2 ^ 52) :: rat) * 2 powi ?ey
        \<le> of_int (round_half_even (y / 2 powi ?ey)) * 2 powi ?ey"
      by (intro mult_right_mono) simp_all
    then have fy: "2 powi (?ey + 52) \<le> fl y"
      using y by (simp add: fl_def power_int_add)
    have "(2::rat) powi (?ex + 53) \<le> 2 powi (?ey + 52)"
      using lt by (intro power_int_increasing) simp_all
    with fx fy show ?thesis by linarith
  qed
qed

lemma fl_exact:
  assumes "2 powi L \<le> x" and "x < 2 powi (L + 1)" and "- 1022 \<le> L"
    and "x / 2 powi (L - 52) = of_int m"
  shows "fl x = x"
proof -
  have "(0::rat) < 2 powi L" by simp
  with assms(1) have pos: "0 < x" by linarith
  have "ilog2 x = L" using assms(1,2) by (rule ilog2_unique)
  then have q: "quantum_exp x = L - 52" using assms(3) by (simp add: quantum_exp_def)
  have xm: "of_int m * 2 powi (L - 52) = x" using assms(4) by (simp add: divide_eq_eq)
  have "fl x = of_int (round_half_even (x / 2 powi (L - 52))) * 2 powi (L - 52)"
    using pos by (simp add: fl_def q)
  also have "\<dots> = of_int m * 2 powi (L - 52)"
    by (simp only: assms(4) round_half_even_of_int)
  finally show ?thesis by (simp only: xm)
qed

lemma fl_1: "fl 1 = 1"
  by (rule fl_exact[where L = 0 and m = "2 ^ 52"]) (simp_all add: power_int_minus field_simps)

lemma fl_90: "fl 90 = 90"
  by (rule fl_exact[where L = 6 and m = "90 * 2 ^ 46"]) (simp_all add: power_int_minus field_simps)

lemma loop_progress_0: "loop_progress 0 n = 0"
  by (simp add: loop_progress_def fl_def)

lemma loop_progress_mono:
  assumes "i \<le> j"
  shows "loop_progress i n \<le> loop_progress j n"
proof -
  have "(of_int (int i) :: rat) / of_int (int n) \<le> of_int (int j) / of_int (int n)"
    using assms by (intro divide_right_mono) simp_all
  then have "fl (of_int (int i) / of_int (int n)) \<le> fl (of_int (int j) / of_int (int n))"
    by (rule fl_mono)
  then have "fl (of_int (int i) / of_int (int n)) * 90 \<le> fl (of_int (int j) / of_int (int n)) * 90"
    by simp
  then show ?thesis unfolding loop_progress_def by (intro floor_mono fl_mono)
qed

lemma loop_progress_le_90:
  assumes "i < n"
  shows "loop_progress i n \<le> 90"
proof -
  have "(of_int (int i) :: rat) / of_int (int n) \<le> 1" using assms by simp
  then have "fl (of_int (int i) / of_int (int n)) \<le> fl 1" by (rule fl_mono)
  then have "fl (of_int (int i) / of_int (int n)) * 90 \<le> 90" by (simp add: fl_1)
  then have "fl (fl (of_int (int i) / of_int (int n)) * 90) \<le> fl 90" by (rule fl_mono)
  then have "\<lfloor>fl (fl (of_int (int i) / of_int (int n)) * 90)\<rfloor> \<le> \<lfloor>90 :: rat\<rfloor>"
    unfolding fl_90 by (rule floor_mono)
  then show ?thesis by (simp add: loop_progress_def)
qed

lemma loop_progress_nonneg: "0 \<le> loop_progress i n"
  by (simp add: loop_progress_def fl_nonneg)

section \<open>Properties of the extraction and of the writes\<close>

text \<open>
  C8. \<open>extract_text\<close> raises its unsupported-format error when the path, in lower case,
  ends neither in \<open>.docx\<close> nor in \<open>.pdf\<close>; for a path that ends in \<open>.docx\<close> it returns what
  the reader of DOCX returns, and for one that ends in \<open>.pdf\<close> what the reader of PDF
  returns. So, the readers not raising that same error themselves, the error is raised if
  and only if the extension is neither of the two.
\<close>

theorem extract_text_unsupported_iff:
  "(\<not> endswith (str_lower sv p) (asc ''.docx'') \<and> \<not> endswith (str_lower sv p) (asc ''.pdf'')
      \<longrightarrow> extract_text sv fs p = Inl (unsupported_format p)) \<and>
   (endswith (str_lower sv p) (asc ''.docx'')
      \<longrightarrow> extract_text sv fs p = extract_from_docx sv fs p) \<and>
   (\<not> endswith (str_lower sv p) (asc ''.docx'') \<and> endswith (str_lower sv p) (asc ''.pdf'')
      \<longrightarrow> extract_text sv fs p = extract_from_pdf sv fs p) \<and>
   (extract_from_docx sv fs p \<noteq> Inl (unsupported_format p) \<and>
    extract_from_pdf sv fs p \<noteq> Inl (unsupported_format p)
      \<longrightarrow> (extract_text sv fs p = Inl (unsupported_format p) \<longleftrightarrow>
           \<not> endswith (str_lower sv p) (asc ''.docx'') \<and>
           \<not> endswith (str_lower sv p) (asc ''.pdf'')))"
  by (auto simp: extract_text_def Let_def)

lemma endswith_docx: "endswith (ascii_lower (asc ''law.DOCX'')) (asc ''.docx'')"
  unfolding endswith_def suffix_def
  by (intro exI[of _ "asc ''law''"]) (simp add: asc_def ascii_lower_def)

lemma endswith_eval:
  "endswith (ascii_lower (asc ''scan.pdf'')) (asc ''.pdf'')"
  "\<not> endswith (ascii_lower (asc ''scan.pdf'')) (asc ''.docx'')"
  "\<not> endswith (ascii_lower (asc ''notes.txt'')) (asc ''.docx'')"
  "\<not> endswith (ascii_lower (asc ''notes.txt'')) (asc ''.pdf'')"
  by (simp_all add: endswith_def suffix_to_prefix asc_def ascii_lower_def)

theorem extract_text_unsupported_iff_witness:
  "endswith (str_lower plain_services (asc ''law.DOCX'')) (asc ''.docx'') \<and>
   extract_text plain_services () (asc ''law.DOCX'')
     = extract_from_docx plain_services () (asc ''law.DOCX'') \<and>
   \<not> endswith (str_lower plain_services (asc ''scan.pdf'')) (asc ''.docx'') \<and>
   endswith (str_lower plain_services (asc ''scan.pdf'')) (asc ''.pdf'') \<and>
   extract_text plain_services () (asc ''scan.pdf'')
     = extract_from_pdf plain_services () (asc ''scan.pdf'') \<and>
   \<not> endswith (str_lower plain_services (asc ''notes.txt'')) (asc ''.docx'') \<and>
   \<not> endswith (str_lower plain_services (asc ''notes.txt'')) (asc ''.pdf'') \<and>
   extract_text plain_services () (asc ''notes.txt'') = Inl (unsupported_format (asc ''notes.txt'')) \<and>
   extract_from_docx plain_services () (asc ''law.DOCX'')
     \<noteq> Inl (unsupported_format (asc ''law.DOCX'')) \<and>
   extract_from_pdf plain_services () (asc ''law.DOCX'')
     \<noteq> Inl (unsupported_format (asc ''law.DOCX'')) \<and>
   extract_text plain_services () (asc ''law.DOCX'') \<noteq> Inl (unsupported_format (asc ''law.DOCX''))"
proof -
  have l: "str_lower plain_services = ascii_lower" by (simp add: plain_services_def)
  have r: "extract_from_docx plain_services () p \<noteq> Inl x"
    "extract_from_pdf plain_services () p \<noteq> Inl x" for p x
    by (simp_all add: plain_services_def)
  show ?thesis
    using extract_text_unsupported_iff[of plain_services "asc ''law.DOCX''" "()"]
      extract_text_unsupported_iff[of plain_services "asc ''scan.pdf''" "()"]
      extract_text_unsupported_iff[of plain_services "asc ''notes.txt''" "()"]
      endswith_docx endswith_eval r
    by (simp add: l)
qed

subsection \<open>The fallback name\<close>

lemma save_loop_fallback_log:
  assumes "wr fs (path_join out (article_filename pre i doc)) (markdown_content i doc)
             = (Some (OSError e), fs1)"
  shows "snd (snd (save_loop (logged wr) out pre i [doc] created (fs, written)))
           = written @ [path_join out (article_filename pre i doc), path_join out (fallback_filename pre i)]"
proof -
  obtain r fs2 where w2:
    "wr fs1 (path_join out (fallback_filename pre i)) (markdown_content i doc) = (r, fs2)"
    by (cases "wr fs1 (path_join out (fallback_filename pre i)) (markdown_content i doc)")
  show ?thesis
  proof (cases r)
    case None
    with assms w2 show ?thesis by (simp add: logged_def Let_def)
  next
    case (Some ex)
    with assms w2 show ?thesis by (cases ex) (simp_all add: logged_def Let_def)
  qed
qed

lemma save_loop_skip:
  assumes "wr fs (path_join out (article_filename pre i doc)) (markdown_content i doc)
             = (Some (OSError e), fs1)"
    and "wr fs1 (path_join out (fallback_filename pre i)) (markdown_content i doc)
             = (Some (OSError e2), fs2)"
  shows "save_loop wr out pre i (doc # docs) created fs = save_loop wr out pre (i + 1) docs created fs2"
  using assms by (simp add: Let_def)

text \<open>
  C9. In the loop of \<open>save_articles_to_markdown\<close>, when the write of an article under its
  synthesized name fails with an \<open>OSError\<close>, the writes made for the article are that one
  and one more, under the fallback name: the sanitized name of the document,
  \<open>_Article_\<close>, the index of the article counted from one, and \<open>.md\<close>. When this one fails
  with an \<open>OSError\<close> too, the loop goes on with the next article and the list of created
  files as it was: nothing is added for the article and the batch is not left.
\<close>

theorem fallback_retry_once:
  "wr fs (path_join out (article_filename (sanitize_string_for_filename doc_base_name 40) i doc))
      (markdown_content i doc) = (Some (OSError e), fs1) \<longrightarrow>
   snd (snd (save_loop (logged wr) out (sanitize_string_for_filename doc_base_name 40) i [doc]
               created (fs, written)))
     = written @
       [path_join out (article_filename (sanitize_string_for_filename doc_base_name 40) i doc),
        path_join out (sanitize_string_for_filename doc_base_name 40 @ asc ''_Article_'' @
                       str_of_nat (i + 1) @ asc ''.md'')] \<and>
   (wr fs1 (path_join out (sanitize_string_for_filename doc_base_name 40 @ asc ''_Article_'' @
                           str_of_nat (i + 1) @ asc ''.md'')) (markdown_content i doc)
      = (Some (OSError e2), fs2) \<longrightarrow>
    save_loop wr out (sanitize_string_for_filename doc_base_name 40) i (doc # docs) created fs
      = save_loop wr out (sanitize_string_for_filename doc_base_name 40) (i + 1) docs created fs2 \<and>
    save_loop wr out (sanitize_string_for_filename doc_base_name 40) i [doc] created fs
      = (Inr created, fs2))"
proof (intro impI conjI)
  let ?pre = "sanitize_string_for_filename doc_base_name 40"
  have f: "?pre @ asc ''_Article_'' @ str_of_nat (i + 1) @ asc ''.md'' = fallback_filename ?pre i"
    by (simp add: fallback_filename_def)
  assume a: "wr fs (path_join out (article_filename ?pre i doc)) (markdown_content i doc)
               = (Some (OSError e), fs1)"
  show "snd (snd (save_loop (logged wr) out ?pre i [doc] created (fs, written)))
     = written @ [path_join out (article_filename ?pre i doc),
                  path_join out (?pre @ asc ''_Article_'' @ str_of_nat (i + 1) @ asc ''.md'')]"
    unfolding f using a by (rule save_loop_fallback_log)
  assume b: "wr fs1 (path_join out (?pre @ asc ''_Article_'' @ str_of_nat (i + 1) @ asc ''.md''))
               (markdown_content i doc) = (Some (OSError e2), fs2)"
  have b': "wr fs1 (path_join out (fallback_filename ?pre i)) (markdown_content i doc)
               = (Some (OSError e2), fs2)"
    using b unfolding f .
  show "save_loop wr out ?pre i (doc # docs) created fs
          = save_loop wr out ?pre (i + 1) docs created fs2"
    using a b' by (rule save_loop_skip)
  have "save_loop wr out ?pre i (doc # []) created fs
          = save_loop wr out ?pre (i + 1) [] created fs2"
    using a b' by (rule save_loop_skip)
  then show "save_loop wr out ?pre i [doc] created fs = (Inr created, fs2)"
    by simp
qed

theorem fallback_retry_once_witness:
  "write_file readonly_services ()
     (path_join (asc ''out'') (article_filename (sanitize_string_for_filename long_base 40) 4 long_doc))
     (markdown_content 4 long_doc) = (Some (OSError (asc ''Read-only file system'')), ()) \<and>
   write_file readonly_services ()
     (path_join (asc ''out'') (sanitize_string_for_filename long_base 40 @ asc ''_Article_'' @
                               str_of_nat (4 + 1) @ asc ''.md''))
     (markdown_content 4 long_doc) = (Some (OSError (asc ''Read-only file system'')), ()) \<and>
   snd (snd (save_loop (logged (write_file readonly_services)) (asc ''out'')
               (sanitize_string_for_filename long_base 40) 4 [long_doc] [] ((), [])))
     = [path_join (asc ''out'') (article_filename (sanitize_string_for_filename long_base 40) 4 long_doc),
        path_join (asc ''out'') (sanitize_string_for_filename long_base 40 @ asc ''_Article_'' @
                                 str_of_nat (4 + 1) @ asc ''.md'')] \<and>
   save_loop (write_file readonly_services) (asc ''out'') (sanitize_string_for_filename long_base 40)
     4 [long_doc] [] () = (Inr [], ())"
proof -
  have w: "write_file readonly_services () p c = (Some (OSError (asc ''Read-only file system'')), ())"
    for p c
    by (simp add: readonly_services_def)
  show ?thesis
    using fallback_retry_once[of "write_file readonly_services" "()" "asc ''out'' " long_base 4
        long_doc "asc ''Read-only file system''" "()" "[]" "[]"
        "asc ''Read-only file system''" "()" "[]"] w
    by simp
qed

subsection \<open>Files created and articles counted\<close>

lemma save_loop_count:
  "save_loop wr out pre i docs created fs = (Inr cs, fs') \<Longrightarrow>
   length cs \<le> length created + length docs"
proof (induction wr out pre i docs created fs rule: save_loop.induct)
  case (1 wr out pre i created fs)
  then show ?case by simp
next
  case (2 wr out pre i doc docs created fs)
  let ?p = "path_join out (article_filename pre i doc)"
  let ?c = "markdown_content i doc"
  let ?q = "path_join out (fallback_filename pre i)"
  obtain r fs1 where w1: "wr fs ?p ?c = (r, fs1)" by (cases "wr fs ?p ?c")
  show ?case
  proof (cases r)
    case None
    with 2 w1 show ?thesis by (fastforce simp: Let_def)
  next
    case (Some ex)
    show ?thesis
    proof (cases ex)
      case (OSError e)
      obtain r2 fs2 where w2: "wr fs1 ?q ?c = (r2, fs2)" by (cases "wr fs1 ?q ?c")
      show ?thesis
      proof (cases r2)
        case None
        with 2 w1 w2 Some OSError show ?thesis by (fastforce simp: Let_def)
      next
        case (Some ex2)
        with 2 w1 w2 \<open>r = Some ex\<close> OSError show ?thesis
          by (cases ex2) (fastforce simp: Let_def)+
      qed
    next
      case (ValueError m)
      with 2 w1 Some show ?thesis by (simp add: Let_def)
    next
      case (OtherException m)
      with 2 w1 Some show ?thesis by (simp add: Let_def)
    qed
  qed
qed

lemma process_document_counts:
  assumes "process_document sv fs file_path out = (Inr r, fs')"
  shows "files_created r \<le> articles_count r"
proof -
  from assms obtain articles created fs0 where
    s: "save_articles_to_markdown sv fs articles out (fst (splitext (basename file_path)))
          = (Inr created, fs0)"
    and r: "articles_count r = length articles" "files_created r = length created"
    by (auto simp: process_document_def Let_def split: sum.splits prod.splits)
  from s obtain fs1 where
    "save_loop (write_file sv) out
       (sanitize_string_for_filename (fst (splitext (basename file_path))) 40) 0 articles [] fs1
     = (Inr created, fs0)"
    by (auto simp: save_articles_to_markdown_def split: prod.splits option.splits)
  then have "length created \<le> length ([] :: pystr list) + length articles"
    by (rule save_loop_count)
  with r show ?thesis by simp
qed

section \<open>Properties of the jobs\<close>

lemma log_ok_init: "log_ok job0 (job0, [])"
  by (simp add: log_ok_def)

lemma log_ok_assign:
  assumes "log_ok job0 jl" and "step_ok (fst jl) (f (fst jl))"
  shows "log_ok job0 (assign f jl)"
proof -
  have "successively step_ok ((job0 # snd jl) @ [f (fst jl)])"
    unfolding successively_append_iff using assms by (simp add: log_ok_def)
  then show ?thesis by (simp add: log_ok_def assign_def)
qed

lemma assign_fst: "fst (assign f jl) = f (fst jl)"
  by (simp add: assign_def)

lemma step_ok_message: "step_ok j (j\<lparr>message := m\<rparr>)"
  by (simp add: step_ok_def)

lemma step_ok_progress: "terminal (status j) \<or> progress j \<le> p \<Longrightarrow> step_ok j (j\<lparr>progress := p\<rparr>)"
  by (auto simp: step_ok_def)

lemma process_files_ok:
  assumes "log_ok job0 jl" and "status (fst jl) = Processing"
    and "progress (fst jl) \<le> 90"
    and "files \<noteq> [] \<longrightarrow> progress (fst jl) \<le> loop_progress idx n"
    and "idx + length files = n"
    and "process_files sv merge base n idx files tot jl fs = (r, jl', fs')"
  shows "log_ok job0 jl' \<and> status (fst jl') = Processing \<and> progress (fst jl') \<le> 90"
  using assms
proof (induction files arbitrary: idx tot jl fs)
  case Nil
  then show ?case by simp
next
  case (Cons p rest)
  let ?jl1 = "assign (\<lambda>j. j\<lparr>message := processing_message idx n p\<rparr>) jl"
  let ?jl2 = "assign (\<lambda>j. j\<lparr>progress := loop_progress idx n\<rparr>) ?jl1"
  have idx: "idx < n" using Cons.prems(5) by simp
  have ok1: "log_ok job0 ?jl1"
    using Cons.prems(1) by (rule log_ok_assign) (rule step_ok_message)
  have "step_ok (fst ?jl1) ((fst ?jl1)\<lparr>progress := loop_progress idx n\<rparr>)"
    using Cons.prems(4) by (simp add: assign_fst step_ok_progress)
  with ok1 have ok2: "log_ok job0 ?jl2" by (rule log_ok_assign)
  have st2: "status (fst ?jl2) = Processing"
    using Cons.prems(2) by (simp add: assign_fst)
  have pr2: "progress (fst ?jl2) = loop_progress idx n"
    by (simp add: assign_fst)
  have le90: "progress (fst ?jl2) \<le> 90"
    unfolding pr2 using idx by (rule loop_progress_le_90)
  have nxt: "rest \<noteq> [] \<longrightarrow> progress (fst ?jl2) \<le> loop_progress (idx + 1) n"
    unfolding pr2 by (simp add: loop_progress_mono)
  let ?dir = "file_output_dir merge base p"
  obtain m fs1 where mk: "(if merge then (None, fs) else mkdir sv fs ?dir) = (m, fs1)"
    by (cases "if merge then (None, fs) else mkdir sv fs ?dir")
  show ?case
  proof (cases m)
    case (Some e)
    with Cons.prems(6) mk have "jl' = ?jl2" by (simp add: Let_def)
    with ok2 st2 le90 show ?thesis by simp
  next
    case None
    obtain d fs2 where pd: "process_document sv fs1 p ?dir = (d, fs2)"
      by (cases "process_document sv fs1 p ?dir")
    show ?thesis
    proof (cases d)
      case (Inl e)
      with Cons.prems(6) mk None pd have "jl' = ?jl2" by (simp add: Let_def)
      with ok2 st2 le90 show ?thesis by simp
    next
      case (Inr res)
      with Cons.prems(6) mk None pd
      have rec: "process_files sv merge base n (idx + 1) rest (tot + articles_count res) ?jl2 fs2
                  = (r, jl', fs')"
        by (simp add: Let_def)
      have "idx + 1 + length rest = n" using Cons.prems(5) by simp
      from Cons.IH[OF ok2 st2 le90 nxt this rec] show ?thesis .
    qed
  qed
qed

lemma process_files_total:
  assumes "process_files sv merge base n idx files tot jl fs = (Inr tot', jl', fs')"
  shows "tot' = tot + sum_list (map articles_count (file_results sv merge base files fs)) \<and>
         length (file_results sv merge base files fs) = length files"
  using assms
proof (induction files arbitrary: idx tot jl fs)
  case Nil
  then show ?case by simp
next
  case (Cons p rest)
  let ?dir = "file_output_dir merge base p"
  obtain m fs1 where mk: "(if merge then (None, fs) else mkdir sv fs ?dir) = (m, fs1)"
    by (cases "if merge then (None, fs) else mkdir sv fs ?dir")
  obtain d fs2 where pd: "process_document sv fs1 p ?dir = (d, fs2)"
    by (cases "process_document sv fs1 p ?dir")
  from Cons.prems mk have m: "m = None" by (cases m) (simp_all add: Let_def)
  from Cons.prems mk m pd obtain res where d: "d = Inr res" by (cases d) (simp_all add: Let_def)
  from Cons.prems mk m pd d obtain jl2 where
    "process_files sv merge base n (idx + 1) rest (tot + articles_count res) jl2 fs2
       = (Inr tot', jl', fs')"
    by (simp add: Let_def)
  from Cons.IH[OF this] mk m pd d show ?case by (simp add: Let_def)
qed

text \<open>The body of the worker, from the entry that the submission created.\<close>

lemma job_body_ok:
  assumes "job_body sv job_id file_paths merge (new_job now k merge', []) fs = (r, jl', fs')"
  shows "log_ok (new_job now k merge') jl' \<and>
         (case r of None \<Rightarrow> status (fst jl') = Completed | Some e \<Rightarrow> status (fst jl') = Processing)"
proof -
  let ?j0 = "new_job now k merge'"
  let ?jl1 = "assign (\<lambda>j. j\<lparr>status := Processing\<rparr>) (?j0, [])"
  let ?jl2 = "assign (\<lambda>j. j\<lparr>message := asc ''Processing documents...''\<rparr>) ?jl1"
  let ?base = "path_div (path_div temp_dir job_id) (asc ''output'')"
  have ok1: "log_ok ?j0 ?jl1"
    by (rule log_ok_assign[OF log_ok_init]) (simp add: step_ok_def new_job_def)
  have ok2: "log_ok ?j0 ?jl2"
    using ok1 by (rule log_ok_assign) (rule step_ok_message)
  have st2: "status (fst ?jl2) = Processing" and pr2: "progress (fst ?jl2) = 0"
    by (simp_all add: assign_fst new_job_def)
  obtain m1 fs1 where mk1: "mkdir sv fs ?base = (m1, fs1)" by (cases "mkdir sv fs ?base")
  show ?thesis
  proof (cases m1)
    case (Some e)
    with assms mk1 have "r = Some e" "jl' = ?jl2" by (simp_all add: job_body_def Let_def)
    with ok2 st2 show ?thesis by simp
  next
    case None
    obtain m2 fs2 where mk2:
      "(if merge then mkdir sv fs1 (path_div ?base (asc ''merged_articles'')) else (None, fs1))
         = (m2, fs2)"
      by (cases "if merge then mkdir sv fs1 (path_div ?base (asc ''merged_articles''))
                 else (None, fs1)")
    show ?thesis
    proof (cases m2)
      case (Some e)
      with assms mk1 None mk2 have "r = Some e" "jl' = ?jl2"
        by (simp_all add: job_body_def Let_def)
      with ok2 st2 show ?thesis by simp
    next
      case n2: None
      obtain d jl3 fs3 where pf:
        "process_files sv merge ?base (length file_paths) 0 file_paths 0 ?jl2 fs2 = (d, jl3, fs3)"
        by (cases "process_files sv merge ?base (length file_paths) 0 file_paths 0 ?jl2 fs2")
      have p0: "file_paths \<noteq> [] \<longrightarrow> progress (fst ?jl2) \<le> loop_progress 0 (length file_paths)"
        by (simp add: pr2 loop_progress_0)
      have p90: "progress (fst ?jl2) \<le> 90" by (simp add: pr2)
      have "0 + length file_paths = length file_paths" by simp
      from process_files_ok[OF ok2 st2 p90 p0 this pf]
      have ok3: "log_ok ?j0 jl3" and st3: "status (fst jl3) = Processing"
        and pr3: "progress (fst jl3) \<le> 90" by simp_all
      show ?thesis
      proof (cases d)
        case (Inl e)
        with assms mk1 None mk2 n2 pf have "r = Some e" "jl' = jl3"
          by (simp_all add: job_body_def Let_def)
        with ok3 st3 show ?thesis by simp
      next
        case (Inr tot)
        let ?jl4 = "assign (\<lambda>j. j\<lparr>message := asc ''Creating archive...''\<rparr>) jl3"
        let ?jl5 = "assign (\<lambda>j. j\<lparr>progress := 95\<rparr>) ?jl4"
        let ?zip = "path_div (path_div temp_dir job_id) (job_id @ asc ''.zip'')"
        have ok4: "log_ok ?j0 ?jl4" using ok3 by (rule log_ok_assign) (rule step_ok_message)
        have "step_ok (fst ?jl4) ((fst ?jl4)\<lparr>progress := 95\<rparr>)"
          using pr3 by (simp add: assign_fst step_ok_progress)
        with ok4 have ok5: "log_ok ?j0 ?jl5" by (rule log_ok_assign)
        have st5: "status (fst ?jl5) = Processing" using st3 by (simp add: assign_fst)
        obtain z fs4 where zp: "create_zip_archive sv fs3 ?base ?zip = (z, fs4)"
          by (cases "create_zip_archive sv fs3 ?base ?zip")
        show ?thesis
        proof (cases z)
          case (Some e)
          with assms mk1 None mk2 n2 pf Inr zp have "r = Some e" "jl' = ?jl5"
            by (simp_all add: job_body_def Let_def)
          with ok5 st5 show ?thesis by simp
        next
          case z: None
          let ?jl6 = "assign (\<lambda>j. j\<lparr>status := Completed\<rparr>) ?jl5"
          let ?jl7 = "assign (\<lambda>j. j\<lparr>message := asc ''Processing completed successfully''\<rparr>) ?jl6"
          let ?jl8 = "assign (\<lambda>j. j\<lparr>progress := 100\<rparr>) ?jl7"
          let ?jl9 = "assign (\<lambda>j. j\<lparr>total_articles := Some tot\<rparr>) ?jl8"
          let ?jl10 = "assign (\<lambda>j. j\<lparr>zip_path := Some ?zip\<rparr>) ?jl9"
          have "step_ok (fst ?jl5) ((fst ?jl5)\<lparr>status := Completed\<rparr>)"
            using st5 by (simp add: step_ok_def terminal_def)
          with ok5 have ok6: "log_ok ?j0 ?jl6" by (rule log_ok_assign)
          have st6: "status (fst ?jl6) = Completed" by (simp add: assign_fst)
          have ok7: "log_ok ?j0 ?jl7" using ok6 by (rule log_ok_assign) (rule step_ok_message)
          have ok8: "log_ok ?j0 ?jl8"
            using ok7 by (rule log_ok_assign) (simp add: assign_fst step_ok_def terminal_def)
          have ok9: "log_ok ?j0 ?jl9"
            using ok8 by (rule log_ok_assign) (simp add: step_ok_def assign_fst terminal_def)
          have ok10: "log_ok ?j0 ?jl10"
            using ok9 by (rule log_ok_assign) (simp add: step_ok_def assign_fst terminal_def)
          have st10: "status (fst ?jl10) = Completed" by (simp add: assign_fst)
          from assms mk1 None mk2 n2 pf Inr zp z have "r = None" "jl' = ?jl10"
            by (simp_all add: job_body_def Let_def)
          with ok10 st10 show ?thesis by simp
        qed
      qed
    qed
  qed
qed

lemma job_failed_ok:
  assumes "log_ok job0 jl" and "status (fst jl) = Processing"
  shows "log_ok job0 (job_failed e jl)"
proof -
  let ?jl1 = "assign (\<lambda>j. j\<lparr>status := Failed\<rparr>) jl"
  let ?jl2 = "assign (\<lambda>j. j\<lparr>message := asc ''Processing failed''\<rparr>) ?jl1"
  let ?jl3 = "assign (\<lambda>j. j\<lparr>error := Some (exc_str e)\<rparr>) ?jl2"
  have "step_ok (fst jl) ((fst jl)\<lparr>status := Failed\<rparr>)"
    using assms(2) by (simp add: step_ok_def terminal_def)
  with assms(1) have ok1: "log_ok job0 ?jl1" by (rule log_ok_assign)
  have ok2: "log_ok job0 ?jl2" using ok1 by (rule log_ok_assign) (rule step_ok_message)
  have ok3: "log_ok job0 ?jl3"
    using ok2 by (rule log_ok_assign) (simp add: step_ok_def assign_fst terminal_def)
  have "log_ok job0 (assign (\<lambda>j. j\<lparr>progress := 0\<rparr>) ?jl3)"
    using ok3 by (rule log_ok_assign) (simp add: step_ok_def assign_fst terminal_def)
  then show ?thesis by (simp add: job_failed_def Let_def)
qed

lemma job_failed_final:
  "status (fst (job_failed e jl)) = Failed \<and> progress (fst (job_failed e jl)) = 0 \<and>
   error (fst (job_failed e jl)) = Some (exc_str e)"
  by (simp add: job_failed_def Let_def assign_fst)

subsection \<open>Runs on concrete values\<close>

lemma splitext_law: "fst (splitext (basename (asc ''law.DOCX''))) = asc ''law''"
  by (simp add: splitext_def basename_def asc_def Let_def)

lemma enrich_one:
  "extract_keywords_and_topic (\<lambda>_. Inr \<lparr>sents = ss, tokens = []\<rparr>) lw t ti 7
     = Inr ([], general_topic)"
  by (simp add: extract_keywords_and_topic_def title_tokens_def most_common_def slice_to_def)

lemma process_document_plain:
  "process_document plain_services () (asc ''law.DOCX'') d =
     (Inr \<lparr>document_name = asc ''law'', articles_count = 1, files_created = 1,
           result_output_dir = d\<rparr>, ())"
  by (simp add: process_document_def plain_services_def extract_text_def endswith_docx
      splitext_law segment_into_articles_def segment_sents_one_article enrich_one
      save_articles_to_markdown_def Let_def)

lemma process_document_readonly:
  "process_document readonly_services () (asc ''law.DOCX'') d =
     (Inr \<lparr>document_name = asc ''law'', articles_count = 1, files_created = 0,
           result_output_dir = d\<rparr>, ())"
  by (simp add: process_document_def readonly_services_def plain_services_def extract_text_def
      endswith_docx splitext_law segment_into_articles_def segment_sents_one_article enrich_one
      save_articles_to_markdown_def Let_def)

lemma process_document_silent:
  "process_document silent_services () (asc ''law.DOCX'') d = (Inl (OtherException []), ())"
  by (simp add: process_document_def silent_services_def plain_services_def extract_text_def
      endswith_docx segment_into_articles_def Let_def)

lemma mkdir_simps:
  "mkdir readonly_services fs p = (None, fs)" "mkdir silent_services fs p = (None, fs)"
  "mkdir plain_services fs p = (None, fs)"
  "create_zip_archive readonly_services fs p q = (None, fs)"
  "create_zip_archive plain_services fs p q = (None, fs)"
  by (simp_all add: readonly_services_def silent_services_def plain_services_def)

lemma job_results_readonly:
  "job_results readonly_services () (asc ''job1'') [asc ''law.DOCX''] False =
     [\<lparr>document_name = asc ''law'', articles_count = 1, files_created = 0,
       result_output_dir = file_output_dir False
         (path_div (path_div temp_dir (asc ''job1'')) (asc ''output'')) (asc ''law.DOCX'')\<rparr>]"
  by (simp add: job_results_def Let_def mkdir_simps process_document_readonly)

lemma final_job_readonly:
  "status (final_job readonly_services () 0 (asc ''job1'') [asc ''law.DOCX''] False) = Completed \<and>
   total_articles (final_job readonly_services () 0 (asc ''job1'') [asc ''law.DOCX''] False) = Some 1"
  by (simp add: final_job_def run_job_def process_documents_job_def job_body_def Let_def
      mkdir_simps process_document_readonly assign_fst)

lemma job_body_silent:
  "fst (job_body silent_services (asc ''job1'') [asc ''law.DOCX''] False
         (new_job 0 1 False, []) ()) = Some (OtherException [])"
  by (simp add: job_body_def Let_def mkdir_simps process_document_silent)

lemma process_document_unsupported:
  "process_document plain_services () (asc ''notes.txt'') d
     = (Inl (unsupported_format (asc ''notes.txt'')), ())"
  by (simp add: process_document_def plain_services_def extract_text_def endswith_eval Let_def)

lemma job_body_unsupported:
  "fst (job_body plain_services (asc ''job1'') [asc ''notes.txt''] False
         (new_job 0 (length [asc ''notes.txt'']) False, []) ())
     = Some (unsupported_format (asc ''notes.txt''))"
  by (simp add: job_body_def Let_def mkdir_simps process_document_unsupported)

lemma trace_plain:
  "map (\<lambda>j. (status j, progress j))
     (job_trace plain_services () 0 (asc ''job1'') [asc ''law.DOCX''] False)
    = [(Pending, 0), (Processing, 0), (Processing, 0), (Processing, 0), (Processing, 0),
       (Processing, 0), (Processing, 95), (Completed, 95), (Completed, 95), (Completed, 100),
       (Completed, 100), (Completed, 100)]"
  by (simp add: job_trace_def run_job_def process_documents_job_def job_body_def Let_def
      mkdir_simps process_document_plain assign_def new_job_def loop_progress_0)

lemma file_results_counts:
  "\<forall>r\<in>set (file_results sv merge base files fs). files_created r \<le> articles_count r"
proof (induction files arbitrary: fs)
  case Nil
  then show ?case by simp
next
  case (Cons p rest)
  let ?dir = "file_output_dir merge base p"
  obtain m fs1 where mk: "(if merge then (None, fs) else mkdir sv fs ?dir) = (m, fs1)"
    by (cases "if merge then (None, fs) else mkdir sv fs ?dir")
  obtain d fs2 where pd: "process_document sv fs1 p ?dir = (d, fs2)"
    by (cases "process_document sv fs1 p ?dir")
  show ?case
  proof (cases m)
    case (Some e)
    with mk show ?thesis by (simp add: Let_def)
  next
    case None
    show ?thesis
    proof (cases d)
      case (Inl e)
      with mk None pd show ?thesis by (simp add: Let_def)
    next
      case (Inr res)
      with pd have "files_created res \<le> articles_count res"
        by (intro process_document_counts[of sv fs1 p ?dir res fs2]) simp
      with mk None pd Inr Cons.IH[of fs2] show ?thesis by (simp add: Let_def)
    qed
  qed
qed

lemma sum_list_counts:
  "\<forall>r\<in>set rs. files_created r \<le> articles_count r \<Longrightarrow>
   sum_list (map files_created rs) \<le> sum_list (map articles_count rs)"
  by (induction rs) (simp_all add: add_mono)

subsection \<open>The steps of a job\<close>

text \<open>
  C6. Along the run of a job, from the entry that the submission creates (status
  \<open>Pending\<close>) through every assignment of the worker, each step leaves the status as it
  is or takes it from \<open>Pending\<close> to \<open>Processing\<close> or from \<open>Processing\<close> to \<open>Completed\<close> or
  \<open>Failed\<close>, and from a status that is not terminal the progress does not fall; the run
  ends in a terminal status.
\<close>

theorem job_steps_ok:
  "successively step_ok (job_trace sv fs now job_id file_paths merge) \<and>
   status (hd (job_trace sv fs now job_id file_paths merge)) = Pending \<and>
   final_job sv fs now job_id file_paths merge = last (job_trace sv fs now job_id file_paths merge) \<and>
   terminal (status (final_job sv fs now job_id file_paths merge))"
proof -
  let ?j0 = "new_job now (length file_paths) merge"
  obtain r jl' fs' where b: "job_body sv job_id file_paths merge (?j0, []) fs = (r, jl', fs')"
    by (cases "job_body sv job_id file_paths merge (?j0, []) fs")
  note ok = job_body_ok[OF b]
  have "log_ok ?j0 (run_job sv fs now job_id file_paths merge) \<and>
        terminal (status (fst (run_job sv fs now job_id file_paths merge)))"
  proof (cases r)
    case None
    with b ok show ?thesis by (simp add: run_job_def process_documents_job_def terminal_def)
  next
    case (Some e)
    with ok have "log_ok ?j0 (job_failed e jl')" by (intro job_failed_ok) simp_all
    with b Some job_failed_final[of e jl'] show ?thesis
      by (simp add: run_job_def process_documents_job_def terminal_def)
  qed
  then have s: "successively step_ok (?j0 # snd (run_job sv fs now job_id file_paths merge))"
    and l: "fst (run_job sv fs now job_id file_paths merge)
              = last (?j0 # snd (run_job sv fs now job_id file_paths merge))"
    and t: "terminal (status (fst (run_job sv fs now job_id file_paths merge)))"
    unfolding log_ok_def by blast+
  have p: "status ?j0 = Pending" by (simp add: new_job_def)
  show ?thesis
    unfolding job_trace_def final_job_def using s l t p by (simp only: list.sel simp_thms)
qed

theorem job_steps_ok_witness:
  "map (\<lambda>j. (status j, progress j))
     (job_trace plain_services () 0 (asc ''job1'') [asc ''law.DOCX''] False)
    = [(Pending, 0), (Processing, 0), (Processing, 0), (Processing, 0), (Processing, 0),
       (Processing, 0), (Processing, 95), (Completed, 95), (Completed, 95), (Completed, 100),
       (Completed, 100), (Completed, 100)] \<and>
   successively step_ok (job_trace plain_services () 0 (asc ''job1'') [asc ''law.DOCX''] False) \<and>
   terminal (status (final_job plain_services () 0 (asc ''job1'') [asc ''law.DOCX''] False))"
  using job_steps_ok[of plain_services "()" 0 "asc ''job1''" "[asc ''law.DOCX'']" False] trace_plain
  by blast

subsection \<open>A job that fails\<close>

text \<open>
  An exception of a stage of \<open>process_document\<close> leaves it: the loop of the worker and
  the body of its \<open>try\<close> pass it on in turn.
\<close>

lemma process_document_raises:
  "(extract_text sv fs p = Inl e \<longrightarrow> process_document sv fs p d = (Inl e, fs)) \<and>
   (extract_text sv fs p = Inr t \<and> segment_into_articles (nlp_model sv) t = Inl e
      \<longrightarrow> process_document sv fs p d = (Inl e, fs)) \<and>
   (extract_text sv fs p = Inr t \<and> segment_into_articles (nlp_model sv) t = Inr arts \<and>
    enrich_articles_with_metadata (nlp_model sv) (str_lower sv) arts = Inl e
      \<longrightarrow> process_document sv fs p d = (Inl e, fs)) \<and>
   (extract_text sv fs p = Inr t \<and> segment_into_articles (nlp_model sv) t = Inr arts \<and>
    enrich_articles_with_metadata (nlp_model sv) (str_lower sv) arts = Inr arts' \<and>
    save_articles_to_markdown sv fs arts' d (fst (splitext (basename p))) = (Inl e, fs')
      \<longrightarrow> process_document sv fs p d = (Inl e, fs'))"
  by (simp add: process_document_def Let_def)

text \<open>
  C7, as the code has it. When an exception \<open>e\<close> leaves the body of the \<open>try\<close> of the worker
  (raised by the making of a directory, by a stage of a document, or by the archive), the
  job ends with status \<open>Failed\<close>, progress 0, and as error the string \<open>str(e)\<close>, which is
  empty when the exception has no message.
\<close>

theorem failed_job_fields:
  "fst (job_body sv job_id file_paths merge (new_job now (length file_paths) merge, []) fs)
     = Some e \<longrightarrow>
   status (final_job sv fs now job_id file_paths merge) = Failed \<and>
   progress (final_job sv fs now job_id file_paths merge) = 0 \<and>
   error (final_job sv fs now job_id file_paths merge) = Some (exc_str e)"
proof
  let ?b = "job_body sv job_id file_paths merge (new_job now (length file_paths) merge, []) fs"
  assume "fst ?b = Some e"
  then obtain jl' fs' where "?b = (Some e, jl', fs')" by (cases ?b) simp
  then show "status (final_job sv fs now job_id file_paths merge) = Failed \<and>
   progress (final_job sv fs now job_id file_paths merge) = 0 \<and>
   error (final_job sv fs now job_id file_paths merge) = Some (exc_str e)"
    using job_failed_final[of e jl']
    by (simp add: final_job_def run_job_def process_documents_job_def)
qed

theorem failed_job_fields_witness:
  "fst (job_body plain_services (asc ''job1'') [asc ''notes.txt''] False
          (new_job 0 (length [asc ''notes.txt'']) False, []) ())
     = Some (unsupported_format (asc ''notes.txt'')) \<and>
   status (final_job plain_services () 0 (asc ''job1'') [asc ''notes.txt''] False) = Failed \<and>
   progress (final_job plain_services () 0 (asc ''job1'') [asc ''notes.txt''] False) = 0 \<and>
   error (final_job plain_services () 0 (asc ''job1'') [asc ''notes.txt''] False)
     = Some (asc ''Unsupported file format: '' @ asc ''notes.txt'')"
  using failed_job_fields[of plain_services "asc ''job1''" "[asc ''notes.txt'']" False 0 "()"
      "unsupported_format (asc ''notes.txt'')"] job_body_unsupported
  by (simp add: unsupported_format_def)

text \<open>
  C7 as it is written asks for an error string that is not empty. With a model that
  raises an exception without a message, the segmentation raises, the job ends
  \<open>Failed\<close> with progress 0, and its error is the empty string.
\<close>

theorem failed_job_empty_error:
  "segment_into_articles (nlp_model silent_services) (sent_article1 @ 32 # sent_body1)
     = Inl (OtherException []) \<and>
   status (final_job silent_services () 0 (asc ''job1'') [asc ''law.DOCX''] False) = Failed \<and>
   progress (final_job silent_services () 0 (asc ''job1'') [asc ''law.DOCX''] False) = 0 \<and>
   error (final_job silent_services () 0 (asc ''job1'') [asc ''law.DOCX''] False) = Some [] \<and>
   \<not> (\<exists>m. error (final_job silent_services () 0 (asc ''job1'') [asc ''law.DOCX''] False) = Some m
           \<and> m \<noteq> [])"
proof -
  have s: "segment_into_articles (nlp_model silent_services) (sent_article1 @ 32 # sent_body1)
     = Inl (OtherException [])"
    by (simp add: segment_into_articles_def silent_services_def)
  have b: "job_body silent_services (asc ''job1'') [asc ''law.DOCX''] False
             (new_job 0 (length [asc ''law.DOCX'']) False, []) ()
           = (Some (OtherException []),
              snd (job_body silent_services (asc ''job1'') [asc ''law.DOCX''] False
                     (new_job 0 (length [asc ''law.DOCX'']) False, []) ()))"
    using job_body_silent
    by (cases "job_body silent_services (asc ''job1'') [asc ''law.DOCX''] False
                 (new_job 0 (length [asc ''law.DOCX'']) False, []) ()") simp
  obtain jl' fs' where
    "job_body silent_services (asc ''job1'') [asc ''law.DOCX''] False
       (new_job 0 (length [asc ''law.DOCX'']) False, []) () = (Some (OtherException []), jl', fs')"
    using b by (metis prod.collapse)
  then have "status (final_job silent_services () 0 (asc ''job1'') [asc ''law.DOCX''] False) = Failed \<and>
   progress (final_job silent_services () 0 (asc ''job1'') [asc ''law.DOCX''] False) = 0 \<and>
   error (final_job silent_services () 0 (asc ''job1'') [asc ''law.DOCX''] False) = Some []"
    using job_failed_final[of "OtherException []" jl']
    by (simp add: final_job_def run_job_def process_documents_job_def)
  with s show ?thesis by simp
qed

subsection \<open>The total of a completed job\<close>

lemma completed_job_total_aux:
  assumes "status (final_job sv fs now job_id file_paths merge) = Completed"
  shows "total_articles (final_job sv fs now job_id file_paths merge)
           = Some (sum_list (map articles_count (job_results sv fs job_id file_paths merge))) \<and>
         length (job_results sv fs job_id file_paths merge) = length file_paths"
proof -
  let ?j0 = "new_job now (length file_paths) merge"
  let ?base = "path_div (path_div temp_dir job_id) (asc ''output'')"
  obtain r jl' fs' where b: "job_body sv job_id file_paths merge (?j0, []) fs = (r, jl', fs')"
    by (cases "job_body sv job_id file_paths merge (?j0, []) fs")
  have r: "r = None"
  proof (cases r)
    case (Some e)
    with b assms job_failed_final[of e jl'] show ?thesis
      by (simp add: final_job_def run_job_def process_documents_job_def)
  qed simp
  obtain m1 fs1 where mk1: "mkdir sv fs ?base = (m1, fs1)" by (cases "mkdir sv fs ?base")
  obtain m2 fs2 where mk2:
    "(if merge then mkdir sv fs1 (path_div ?base (asc ''merged_articles'')) else (None, fs1))
       = (m2, fs2)"
    by (cases "if merge then mkdir sv fs1 (path_div ?base (asc ''merged_articles''))
               else (None, fs1)")
  let ?jl2 = "assign (\<lambda>j. j\<lparr>message := asc ''Processing documents...''\<rparr>)
                (assign (\<lambda>j. j\<lparr>status := Processing\<rparr>) (?j0, []))"
  obtain d jl3 fs3 where pf:
    "process_files sv merge ?base (length file_paths) 0 file_paths 0 ?jl2 fs2 = (d, jl3, fs3)"
    by (cases "process_files sv merge ?base (length file_paths) 0 file_paths 0 ?jl2 fs2")
  from b r mk1 have m1: "m1 = None" by (cases m1) (simp_all add: job_body_def Let_def)
  from b r mk1 m1 mk2 have m2: "m2 = None" by (cases m2) (simp_all add: job_body_def Let_def)
  from b r mk1 m1 mk2 m2 pf obtain tot where d: "d = Inr tot"
    by (cases d) (simp_all add: job_body_def Let_def)
  have fs2: "fs2 = (if merge then snd (mkdir sv fs1 (path_div ?base (asc ''merged_articles'')))
                    else fs1)"
    using mk2 by (auto split: if_splits)
  have res: "job_results sv fs job_id file_paths merge = file_results sv merge ?base file_paths fs2"
    using mk1 fs2 by (simp add: job_results_def Let_def)
  from process_files_total[OF pf[unfolded d]]
  have tot: "tot = sum_list (map articles_count (job_results sv fs job_id file_paths merge))"
    and len: "length (job_results sv fs job_id file_paths merge) = length file_paths"
    by (simp_all add: res)
  have "total_articles (final_job sv fs now job_id file_paths merge) = Some tot"
    using b r mk1 m1 mk2 m2 pf d
    by (auto simp: final_job_def run_job_def process_documents_job_def job_body_def Let_def
        assign_fst split: prod.splits option.splits)
  with tot len show ?thesis by simp
qed

text \<open>
  C10. The result of \<open>process_document\<close> has \<open>files_created\<close> at most \<open>articles_count\<close>. The
  \<open>total_articles\<close> of a completed job is the sum of \<open>articles_count\<close> over its documents,
  so it is at least the number of files written; and it can be more: with a file system
  that refuses every write, a job of one document with one article completes with
  \<open>total_articles\<close> 1 and no file written.
\<close>

theorem total_articles_counts_segmented:
  "(process_document sv fs p d = (Inr r, fs') \<longrightarrow> files_created r \<le> articles_count r) \<and>
   (status (final_job sv fs now job_id file_paths merge) = Completed \<longrightarrow>
      total_articles (final_job sv fs now job_id file_paths merge)
        = Some (sum_list (map articles_count (job_results sv fs job_id file_paths merge))) \<and>
      length (job_results sv fs job_id file_paths merge) = length file_paths \<and>
      sum_list (map files_created (job_results sv fs job_id file_paths merge))
        \<le> sum_list (map articles_count (job_results sv fs job_id file_paths merge))) \<and>
   status (final_job readonly_services () 0 (asc ''job1'') [asc ''law.DOCX''] False) = Completed \<and>
   total_articles (final_job readonly_services () 0 (asc ''job1'') [asc ''law.DOCX''] False) = Some 1 \<and>
   sum_list (map files_created (job_results readonly_services () (asc ''job1'') [asc ''law.DOCX''] False))
     = 0"
proof (intro conjI impI)
  assume "process_document sv fs p d = (Inr r, fs')"
  then show "files_created r \<le> articles_count r" by (rule process_document_counts)
next
  assume c: "status (final_job sv fs now job_id file_paths merge) = Completed"
  from completed_job_total_aux[OF c]
  show "total_articles (final_job sv fs now job_id file_paths merge)
        = Some (sum_list (map articles_count (job_results sv fs job_id file_paths merge)))"
    and "length (job_results sv fs job_id file_paths merge) = length file_paths"
    by simp_all
  have "\<forall>r\<in>set (job_results sv fs job_id file_paths merge). files_created r \<le> articles_count r"
    unfolding job_results_def Let_def by (rule file_results_counts)
  then show "sum_list (map files_created (job_results sv fs job_id file_paths merge))
        \<le> sum_list (map articles_count (job_results sv fs job_id file_paths merge))"
    by (rule sum_list_counts)
qed (simp_all add: final_job_readonly job_results_readonly)

theorem total_articles_counts_segmented_witness:
  "process_document readonly_services () (asc ''law.DOCX'') (asc ''out'')
     = (Inr \<lparr>document_name = asc ''law'', articles_count = 1, files_created = 0,
             result_output_dir = asc ''out''\<rparr>, ()) \<and>
   status (final_job readonly_services () 0 (asc ''job1'') [asc ''law.DOCX''] False) = Completed \<and>
   total_articles (final_job readonly_services () 0 (asc ''job1'') [asc ''law.DOCX''] False)
     = Some (sum_list (map articles_count
               (job_results readonly_services () (asc ''job1'') [asc ''law.DOCX''] False))) \<and>
   length (job_results readonly_services () (asc ''job1'') [asc ''law.DOCX''] False) = 1 \<and>
   sum_list (map files_created (job_results readonly_services () (asc ''job1'') [asc ''law.DOCX''] False))
     < sum_list (map articles_count
         (job_results readonly_services () (asc ''job1'') [asc ''law.DOCX''] False))"
  using total_articles_counts_segmented
      [of readonly_services "()" "asc ''law.DOCX''" "asc ''out''"
          "\<lparr>document_name = asc ''law'', articles_count = 1, files_created = 0,
            result_output_dir = asc ''out''\<rparr>" "()" 0 "asc ''job1''" "[asc ''law.DOCX'']" False]
    process_document_readonly[of "asc ''out''"] final_job_readonly job_results_readonly
  by simp

end
